theory Spec2Isabelle
  imports Main "HOL-Library.Word" "HOL-Library.AList"
begin

unbundle bit_operations_syntax

section \<open>Python strings\<close>

text \<open>
  A Python \<open>str\<close> is modelled as a list of code points below 256, one \<open>char\<close> each, so
  \<open>length\<close> counts what Python's \<open>len\<close> counts. The character classes below are the ones
  Python 3 uses for these code points: \<open>str.isspace\<close> (also the class \<open>\s\<close> of \<open>re\<close> and
  what \<open>str.strip()\<close> removes), the class \<open>\w\<close> of \<open>re\<close>, and \<open>str.lower\<close>.
\<close>

definition is_space :: "char \<Rightarrow> bool" where
  "is_space c = (let n = (of_char c :: nat) in
     (9 \<le> n \<and> n \<le> 13) \<or> (28 \<le> n \<and> n \<le> 32) \<or> n = 133 \<or> n = 160)"

definition is_word :: "char \<Rightarrow> bool" where
  "is_word c = (let n = (of_char c :: nat) in
     (48 \<le> n \<and> n \<le> 57) \<or> (65 \<le> n \<and> n \<le> 90) \<or> n = 95 \<or> (97 \<le> n \<and> n \<le> 122) \<or>
     n = 170 \<or> n = 178 \<or> n = 179 \<or> n = 181 \<or> n = 185 \<or> n = 186 \<or>
     (188 \<le> n \<and> n \<le> 190) \<or> (192 \<le> n \<and> n \<le> 214) \<or> (216 \<le> n \<and> n \<le> 246) \<or>
     (248 \<le> n \<and> n \<le> 255))"

definition lower_char :: "char \<Rightarrow> char" where
  "lower_char c = (let n = (of_char c :: nat) in
     if (65 \<le> n \<and> n \<le> 90) \<or> (192 \<le> n \<and> n \<le> 214) \<or> (216 \<le> n \<and> n \<le> 222)
     then char_of (n + 32) else c)"

definition lower :: "string \<Rightarrow> string" where
  "lower s = map lower_char s"

definition strip_chars :: "(char \<Rightarrow> bool) \<Rightarrow> string \<Rightarrow> string" where
  "strip_chars P s = rev (dropWhile P (rev (dropWhile P s)))"

definition strip :: "string \<Rightarrow> string" where
  "strip s = strip_chars is_space s"

section \<open>sanitize\_filename\<close>

text \<open>
  \<^verbatim>\<open>re.sub(r'[<>:"/\\|?*]', '', filename)\<close> deletes the characters of
  \<open>invalid_chars\<close>; \<^verbatim>\<open>re.sub(r'[^\w\s-]', '', filename)\<close> deletes every character that is
  neither a word character, nor white space, nor a hyphen;
  \<^verbatim>\<open>re.sub(r'[-\s]+', '-', filename)\<close> replaces each maximal run of hyphens and white
  space by one hyphen.
\<close>

definition invalid_chars :: "char list" where
  "invalid_chars = [CHR ''<'', CHR ''>'', CHR '':'', CHR 0x22, CHR ''/'', CHR 0x5C,
                    CHR ''|'', CHR ''?'', CHR ''*'']"

definition keeps :: "char \<Rightarrow> bool" where
  "keeps c = (is_word c \<or> is_space c \<or> c = CHR ''-'')"

definition is_sep :: "char \<Rightarrow> bool" where
  "is_sep c = (c = CHR ''-'' \<or> is_space c)"

function collapse_seps :: "string \<Rightarrow> string" where
  "collapse_seps [] = []"
| "collapse_seps (c # cs) =
     (if is_sep c then CHR ''-'' # collapse_seps (dropWhile is_sep cs)
      else c # collapse_seps cs)"
  by pat_completeness auto
termination
  by (relation "measure length") (auto simp: length_dropWhile_le less_Suc_eq_le)

definition sanitize_filename :: "string \<Rightarrow> string" where
  "sanitize_filename filename =
     (if filename = [] \<or> strip filename = [] then ''unknown_file''
      else
        let f1 = strip filename;
            f2 = filter (\<lambda>c. c \<notin> set invalid_chars) f1;
            f3 = filter keeps f2;
            f4 = collapse_seps f3;
            result = take 100 (strip_chars (\<lambda>c. c = CHR ''-'') f4)
        in if result \<noteq> [] then result else ''unknown_file'')"

section \<open>Song identifiers\<close>

text \<open>
  \<open>generate_song_id\<close> hashes the cleaned string with MD5 (\<open>hashlib.md5\<close>, RFC 1321) and
  keeps the first twelve hexadecimal digits. The cleaned string holds only the characters
  \<open>a-z\<close>, \<open>0-9\<close> and \<open>_\<close>, so its UTF-8 encoding is one byte per character.
\<close>

definition md5_K :: "32 word list" where
  "md5_K = [
    0xd76aa478, 0xe8c7b756, 0x242070db, 0xc1bdceee, 0xf57c0faf, 0x4787c62a, 0xa8304613, 0xfd469501,
    0x698098d8, 0x8b44f7af, 0xffff5bb1, 0x895cd7be, 0x6b901122, 0xfd987193, 0xa679438e, 0x49b40821,
    0xf61e2562, 0xc040b340, 0x265e5a51, 0xe9b6c7aa, 0xd62f105d, 0x02441453, 0xd8a1e681, 0xe7d3fbc8,
    0x21e1cde6, 0xc33707d6, 0xf4d50d87, 0x455a14ed, 0xa9e3e905, 0xfcefa3f8, 0x676f02d9, 0x8d2a4c8a,
    0xfffa3942, 0x8771f681, 0x6d9d6122, 0xfde5380c, 0xa4beea44, 0x4bdecfa9, 0xf6bb4b60, 0xbebfbc70,
    0x289b7ec6, 0xeaa127fa, 0xd4ef3085, 0x04881d05, 0xd9d4d039, 0xe6db99e5, 0x1fa27cf8, 0xc4ac5665,
    0xf4292244, 0x432aff97, 0xab9423a7, 0xfc93a039, 0x655b59c3, 0x8f0ccc92, 0xffeff47d, 0x85845dd1,
    0x6fa87e4f, 0xfe2ce6e0, 0xa3014314, 0x4e0811a1, 0xf7537e82, 0xbd3af235, 0x2ad7d2bb, 0xeb86d391]"

definition md5_S :: "nat list" where
  "md5_S = [7, 12, 17, 22, 7, 12, 17, 22, 7, 12, 17, 22, 7, 12, 17, 22,
            5, 9, 14, 20, 5, 9, 14, 20, 5, 9, 14, 20, 5, 9, 14, 20,
            4, 11, 16, 23, 4, 11, 16, 23, 4, 11, 16, 23, 4, 11, 16, 23,
            6, 10, 15, 21, 6, 10, 15, 21, 6, 10, 15, 21, 6, 10, 15, 21]"

type_synonym md5_state = "32 word \<times> 32 word \<times> 32 word \<times> 32 word"

definition md5_pad :: "8 word list \<Rightarrow> 8 word list" where
  "md5_pad msg =
     (let n = length msg;
          k = (119 - n mod 64) mod 64;
          bits = (word_of_nat (8 * n) :: 64 word)
      in msg @ [0x80] @ replicate k 0 @ map (\<lambda>i. ucast (drop_bit (8 * i) bits)) [0..<8])"

definition le_word32 :: "8 word list \<Rightarrow> 32 word" where
  "le_word32 bs = foldr (\<lambda>b w. ucast b OR push_bit 8 w) bs 0"

fun chunks :: "nat \<Rightarrow> nat \<Rightarrow> 'a list \<Rightarrow> 'a list list" where
  "chunks 0 n xs = []"
| "chunks (Suc k) n xs = take n xs # chunks k n (drop n xs)"

definition md5_step :: "32 word list \<Rightarrow> md5_state \<Rightarrow> nat \<Rightarrow> md5_state" where
  "md5_step m st i =
     (case st of (a, b, c, d) \<Rightarrow>
        let (f, g) =
              (if i < 16 then ((b AND c) OR (NOT b AND d), i)
               else if i < 32 then ((d AND b) OR (NOT d AND c), (5 * i + 1) mod 16)
               else if i < 48 then (b XOR c XOR d, (3 * i + 5) mod 16)
               else (c XOR (b OR NOT d), (7 * i) mod 16));
            f' = f + a + md5_K ! i + m ! g
        in (d, b + word_rotl (md5_S ! i) f', b, c))"

definition md5_block :: "md5_state \<Rightarrow> 8 word list \<Rightarrow> md5_state" where
  "md5_block st blk =
     (let m = map le_word32 (chunks 16 4 blk) in
      case (st, foldl (md5_step m) st [0..<64]) of
        ((a0, b0, c0, d0), (a, b, c, d)) \<Rightarrow> (a0 + a, b0 + b, c0 + c, d0 + d))"

definition hex_digit :: "nat \<Rightarrow> char" where
  "hex_digit n = ''0123456789abcdef'' ! (n mod 16)"

definition hex_byte :: "8 word \<Rightarrow> string" where
  "hex_byte b = [hex_digit (unat b div 16), hex_digit (unat b mod 16)]"

definition le_bytes32 :: "32 word \<Rightarrow> 8 word list" where
  "le_bytes32 w = map (\<lambda>i. ucast (drop_bit (8 * i) w)) [0..<4]"

definition md5_hexdigest :: "string \<Rightarrow> string" where
  "md5_hexdigest s =
     (let bytes = md5_pad (map (\<lambda>c. word_of_nat (of_char c)) s);
          blocks = chunks (length bytes div 64) 64 bytes
      in case foldl md5_block (0x67452301, 0xefcdab89, 0x98badcfe, 0x10325476) blocks of
           (a, b, c, d) \<Rightarrow> concat (map hex_byte (concat (map le_bytes32 [a, b, c, d]))))"

definition song_id_char :: "char \<Rightarrow> bool" where
  "song_id_char c = (let n = (of_char c :: nat) in
     (97 \<le> n \<and> n \<le> 122) \<or> (48 \<le> n \<and> n \<le> 57) \<or> n = 95)"

definition generate_song_id :: "string \<Rightarrow> string \<Rightarrow> string" where
  "generate_song_id track_name artists =
     (let clean_string = lower (track_name @ ''_'' @ artists);
          clean_string = filter song_id_char clean_string
      in ''song_'' @ take 12 (md5_hexdigest clean_string))"

section \<open>Item Normalizer\<close>

text \<open>
  A raw item is the decoded JSON element of a page. Its fields are typed as the API
  delivers them; \<open>None\<close> is a missing key or a JSON \<open>null\<close>. An item that is not a
  dictionary is \<open>NotADict\<close>. Array elements of \<open>artists.items\<close> that are not dictionaries
  are skipped by the source and so are not listed.
\<close>

record raw_artist =
  profile_name :: "string option"
  artist_uri :: "string option"

record raw_track =
  name :: "string option"
  uri :: "string option"
  artist_items :: "raw_artist list"
  album_of_track_name :: "string option"
  album_of_track_uri :: "string option"

datatype raw_item = NotADict | ItemV2 "string option" raw_track

text \<open>
  \<open>safe_get\<close> on a string-valued path: the default replaces a missing value and a value
  that is blank after \<open>str(result).strip()\<close>.
\<close>

definition safe_get :: "string option \<Rightarrow> string \<Rightarrow> string" where
  "safe_get v dflt =
     (case v of None \<Rightarrow> dflt
      | Some result \<Rightarrow> if strip result \<noteq> [] then result else dflt)"

text \<open>
  The dictionary built for each track. The fields for cover art, duration, play count,
  the "added by" data and the processing time stamp are payload that no function below
  reads; they are left out.
\<close>

record track_info =
  track_name :: string
  track_uri :: string
  artists :: "string list"
  artist_uris :: "string list"
  artists_string :: string
  album_name :: string
  album_uri :: string
  song_id :: string
  skip_download :: bool
  existing_song_found :: bool

text \<open>Configuration constants of \<open>Config\<close>.\<close>

definition MIN_TRACK_NAME_LENGTH :: nat where "MIN_TRACK_NAME_LENGTH = 1"
definition MIN_ARTIST_NAME_LENGTH :: nat where "MIN_ARTIST_NAME_LENGTH = 1"
definition SKIP_INVALID_TRACKS :: bool where "SKIP_INVALID_TRACKS = True"
definition ENABLE_SMART_DEDUPLICATION :: bool where "ENABLE_SMART_DEDUPLICATION = True"
definition MAX_RETRIES :: nat where "MAX_RETRIES = 3"
definition PAUSE_BETWEEN_PLAYLISTS :: bool where "PAUSE_BETWEEN_PLAYLISTS = True"

definition validate_track_data :: "track_info \<Rightarrow> bool \<times> string" where
  "validate_track_data info =
     (let sname = strip (track_name info);
          sartists = strip (artists_string info)
      in if sname = [] \<or> length sname < MIN_TRACK_NAME_LENGTH
         then (False, ''Track name is empty or too short'')
         else if sartists = [] \<or> length sartists < MIN_ARTIST_NAME_LENGTH
         then (False, ''Artist name is empty or too short'')
         else if lower sname \<in> set [''unknown track'', ''unknown'', []]
         then (False, ''Track name is placeholder value'')
         else if lower sartists \<in> set [''unknown artist'', ''unknown'', []]
         then (False, ''Artist name is placeholder value'')
         else (True, ''Valid''))"

text \<open>One entry of \<open>skipped_tracks.log\<close>, as \<open>log_skipped_track\<close> writes it (time stamp aside).\<close>

record skip_entry =
  reason :: string
  logged_track_name :: string
  logged_artists :: string
  logged_album :: string
  logged_uri :: string

definition log_skipped_track :: "track_info \<Rightarrow> string \<Rightarrow> skip_entry" where
  "log_skipped_track info why =
     \<lparr>reason = why, logged_track_name = track_name info, logged_artists = artists_string info,
      logged_album = album_name info, logged_uri = track_uri info\<rparr>"

fun collect_artists ::
  "raw_artist list \<Rightarrow> string list \<times> string list \<Rightarrow> string list \<times> string list" where
  "collect_artists [] acc = acc"
| "collect_artists (artist # rest) (names, uris) =
     (let artist_name = strip (safe_get (profile_name artist) [])
      in if artist_name \<noteq> [] \<and> artist_name \<notin> set names
         then collect_artists rest
                (names @ [artist_name], uris @ [safe_get (artist_uri artist) []])
         else collect_artists rest (names, uris))"

fun join :: "string \<Rightarrow> string list \<Rightarrow> string" where
  "join sep [] = []"
| "join sep [x] = x"
| "join sep (x # y # ys) = x @ sep @ join sep (y # ys)"

text \<open>
  The fields that \<open>extract_enhanced_track_info\<close> reads from the raw track before it
  validates and resolves it: the item record. The identifier and the two flags are filled
  in by the resolution.
\<close>

definition preliminary_track_info :: "raw_track \<Rightarrow> track_info" where
  "preliminary_track_info track_data =
     (case collect_artists (artist_items track_data) ([], []) of
        (artist_names, auris) \<Rightarrow>
          \<lparr>track_name = strip (safe_get (name track_data) []),
           track_uri = safe_get (uri track_data) [],
           artists = artist_names, artist_uris = auris,
           artists_string = (if artist_names \<noteq> [] then join '', '' artist_names
                             else ''Unknown Artist''),
           album_name = strip (safe_get (album_of_track_name track_data) ''Unknown Album''),
           album_uri = safe_get (album_of_track_uri track_data) [],
           song_id = [], skip_download = False, existing_song_found = False\<rparr>)"

section \<open>Catalog Store and Identity Resolver\<close>

text \<open>
  A Python dictionary keeps its keys in insertion order, and the order decides which entry
  wins when the look-up tables are rebuilt. A dictionary is therefore an association list:
  \<open>d[k] = v\<close> is \<open>AList.update k v d\<close> (in place for a known key, appended for a new one),
  \<open>d.get(k)\<close> is \<open>map_of d k\<close>, and \<open>d.update(e)\<close> is \<open>dict_update d e\<close>.
\<close>

type_synonym ('k, 'v) dict = "('k \<times> 'v) list"

definition dict_update :: "('k, 'v) dict \<Rightarrow> ('k, 'v) dict \<Rightarrow> ('k, 'v) dict" where
  "dict_update d e = fold (\<lambda>(k, v). AList.update k v) e d"

record download_result =
  result_track_name :: string
  result_artists :: string
  search_query :: string
  status :: string
  error :: "string option"
  filename :: "string option"
  video_title :: "string option"
  result_metadata :: track_info
  result_song_id :: string

record download_info =
  info_video_title :: "string option"
  info_search_query :: string
  download_status :: string
  downloaded_at :: string

record song_info =
  info_song_id :: string
  info_filename :: string
  original_filename :: "string option"
  file_path :: string
  metadata :: track_info
  playlists :: "string list"
  added_at :: string
  last_updated :: string
  song_download_info :: download_info

record song_manager =
  existing_songs :: "(string, song_info) dict"
  uri_to_song_id :: "(string, string) dict"
  name_artist_to_song_id :: "(string, string) dict"

record playlist_metadata =
  playlist_name :: string
  total_tracks :: nat
  successful_downloads :: nat
  source_url :: string
  timestamp :: string
  songs :: "string list"
  unique_song_count :: nat
  created_at :: string

text \<open>
  The three persisted tables. \<open>None\<close> is a file that does not exist or cannot be read:
  the source then goes on with an empty table.
\<close>

record disk =
  songs_database :: "(string, song_info) dict option"
  playlists_database :: "(string, playlist_metadata) dict option"
  song_playlist_mapping :: "(string, string list) dict option"

definition table :: "('k, 'v) dict option \<Rightarrow> ('k, 'v) dict" where
  "table t = (case t of None \<Rightarrow> [] | Some d \<Rightarrow> d)"

definition new_song_manager :: song_manager where
  "new_song_manager =
     \<lparr>existing_songs = [], uri_to_song_id = [], name_artist_to_song_id = []\<rparr>"

definition register_song :: "string \<Rightarrow> track_info \<Rightarrow> song_manager \<Rightarrow> song_manager" where
  "register_song sid md mgr =
     (let mgr1 = (if track_uri md \<noteq> []
                  then mgr\<lparr>uri_to_song_id := AList.update (track_uri md) sid (uri_to_song_id mgr)\<rparr>
                  else mgr);
          tname = strip (lower (track_name md));
          tartists = strip (lower (artists_string md))
      in if tname \<noteq> [] \<and> tartists \<noteq> []
         then mgr1\<lparr>name_artist_to_song_id :=
                    AList.update (tname @ ''|'' @ tartists) sid (name_artist_to_song_id mgr1)\<rparr>
         else mgr1)"

definition load_song :: "string \<times> song_info \<Rightarrow> song_manager \<Rightarrow> song_manager" where
  "load_song entry mgr =
     (case entry of (sid, info) \<Rightarrow>
        register_song sid (metadata info)
          (mgr\<lparr>existing_songs := AList.update sid info (existing_songs mgr)\<rparr>))"

definition load_existing_database :: "disk \<Rightarrow> song_manager" where
  "load_existing_database d = fold load_song (table (songs_database d)) new_song_manager"

text \<open>
  \<open>find_existing_song\<close>: \<open>Inl sid\<close> is the \<open>KeyError\<close> of \<open>self.existing_songs[song_id]\<close>
  for an identifier that the look-up table holds and the song table does not.
\<close>

definition find_existing_song ::
  "song_manager \<Rightarrow> track_info \<Rightarrow> string + (string \<times> song_info) option" where
  "find_existing_song mgr info =
     (let turi = track_uri info;
          lname = strip (lower (track_name info));
          lartists = strip (lower (artists_string info))
      in case (if turi \<noteq> [] then map_of (uri_to_song_id mgr) turi else None) of
           Some sid \<Rightarrow>
             (case map_of (existing_songs mgr) sid of
                Some found \<Rightarrow> Inr (Some (sid, found)) | None \<Rightarrow> Inl sid)
         | None \<Rightarrow>
             if lname \<noteq> [] \<and> lartists \<noteq> [] then
               (case map_of (name_artist_to_song_id mgr) (lname @ ''|'' @ lartists) of
                  Some sid \<Rightarrow>
                    (case map_of (existing_songs mgr) sid of
                       Some found \<Rightarrow> Inr (Some (sid, found)) | None \<Rightarrow> Inl sid)
                | None \<Rightarrow> Inr None)
             else Inr None)"

text \<open>
  The resolution of a validated item record: the identifier found in the catalog, or a
  new one when nothing is found (or the identifier found is the empty string).
\<close>

definition resolve_track :: "song_manager \<Rightarrow> track_info \<Rightarrow> string + track_info" where
  "resolve_track mgr info =
     (case (if ENABLE_SMART_DEDUPLICATION then find_existing_song mgr info else Inr None) of
        Inl key \<Rightarrow> Inl key
      | Inr existing_result \<Rightarrow>
          let sid = (case existing_result of Some (found, _) \<Rightarrow> found | None \<Rightarrow> [])
          in Inr (info\<lparr>song_id := (if sid = []
                                     then generate_song_id (track_name info) (artists_string info)
                                     else sid),
                       skip_download := (existing_result \<noteq> None),
                       existing_song_found := (existing_result \<noteq> None)\<rparr>))"

text \<open>
  \<open>repr\<close> of a string, which is what \<open>str\<close> of a \<open>KeyError\<close> shows of its key: the string
  between quotes (double quotes when it holds a single quote and no double quote), with the
  quote, the backslash and every character that is not printable escaped.
\<close>

definition py_printable :: "char \<Rightarrow> bool" where
  "py_printable c = (let n = (of_char c :: nat) in
     (32 \<le> n \<and> n < 127) \<or> (161 \<le> n \<and> n \<noteq> 173))"

definition repr_char :: "char \<Rightarrow> char \<Rightarrow> string" where
  "repr_char quote c =
     (if c = quote \<or> c = CHR 0x5C then [CHR 0x5C, c]
      else if c = CHR 0x09 then [CHR 0x5C, CHR ''t'']
      else if c = CHR 0x0A then [CHR 0x5C, CHR ''n'']
      else if c = CHR 0x0D then [CHR 0x5C, CHR ''r'']
      else if \<not> py_printable c then [CHR 0x5C, CHR ''x''] @ hex_byte (of_nat (of_char c))
      else [c])"

definition py_repr :: "string \<Rightarrow> string" where
  "py_repr s =
     (let quote = (if CHR 0x27 \<in> set s \<and> CHR 0x22 \<notin> set s then CHR 0x22 else CHR 0x27)
      in [quote] @ concat (map (repr_char quote) s) @ [quote])"

text \<open>
  One iteration of the loop of \<open>extract_enhanced_track_info\<close>: the track it appends to
  \<open>tracks_info\<close>, if any, and the entries it writes to the skip log. An exception raised
  while an item is processed is caught by the loop and logged as a processing error.
\<close>

definition extract_item :: "song_manager \<Rightarrow> raw_item \<Rightarrow> track_info option \<times> skip_entry list" where
  "extract_item mgr item =
     (case item of
        NotADict \<Rightarrow> (None, [])
      | ItemV2 typename track_data \<Rightarrow>
          if safe_get typename ''Unknown'' \<noteq> ''TrackResponseWrapper'' then (None, [])
          else
            let info = preliminary_track_info track_data
            in if \<not> fst (validate_track_data info) \<and> SKIP_INVALID_TRACKS then
                 (None, [log_skipped_track info (snd (validate_track_data info))])
               else
                 (case resolve_track mgr info of
                    Inl key \<Rightarrow>
                      (None, [\<lparr>reason = ''Processing error: '' @ py_repr key,
                                logged_track_name = ''ERROR_PROCESSING'',
                                logged_artists = ''ERROR_PROCESSING'',
                                logged_album = ''ERROR_PROCESSING'', logged_uri = []\<rparr>])
                  | Inr track \<Rightarrow> (Some track, [])))"

definition extract_enhanced_track_info ::
  "song_manager \<Rightarrow> raw_item list \<Rightarrow> track_info list \<times> skip_entry list" where
  "extract_enhanced_track_info mgr items =
     (List.map_filter (\<lambda>item. fst (extract_item mgr item)) items,
      concat (map (\<lambda>item. snd (extract_item mgr item)) items))"

text \<open>
  Paths as \<open>pathlib\<close> has them on a POSIX system: a root (empty, \<open>/\<close> or \<open>//\<close>) and the
  components between slashes, empty components and \<open>.\<close> dropped. \<open>path_div\<close> is the operator
  \<open>/\<close>, \<open>path_name\<close> the attribute \<open>name\<close>, \<open>path_str\<close> the conversion to a string.
\<close>

fun split_on :: "char \<Rightarrow> string \<Rightarrow> string list" where
  "split_on c [] = [[]]"
| "split_on c (x # xs) =
     (if x = c then [] # split_on c xs
      else (case split_on c xs of p # ps \<Rightarrow> (x # p) # ps | [] \<Rightarrow> [[x]]))"

type_synonym path = "string \<times> string list"

definition parse_path :: "string \<Rightarrow> path" where
  "parse_path s =
     ((if take 2 s = ''//'' \<and> take 3 s \<noteq> ''///'' then ''//''
       else if take 1 s = ''/'' then ''/'' else []),
      filter (\<lambda>p. p \<noteq> [] \<and> p \<noteq> ''.'') (split_on CHR ''/'' s))"

definition path_div :: "path \<Rightarrow> string \<Rightarrow> path" where
  "path_div p s = (let q = parse_path s in if fst q \<noteq> [] then q else (fst p, snd p @ snd q))"

definition path_name :: "path \<Rightarrow> string" where
  "path_name p = (if snd p = [] then [] else last (snd p))"

definition path_str :: "path \<Rightarrow> string" where
  "path_str p = (if fst p = [] \<and> snd p = [] then ''.'' else fst p @ join ''/'' (snd p))"

definition CONSOLIDATED_FOLDER :: string where
  "CONSOLIDATED_FOLDER = ''consolidated_music''"

definition songs_folder :: path where
  "songs_folder = path_div (parse_path CONSOLIDATED_FOLDER) ''songs''"

definition get_consolidated_song_path :: "string \<Rightarrow> string \<Rightarrow> path" where
  "get_consolidated_song_path sid extension = path_div songs_folder (sid @ extension)"

text \<open>
  \<open>PlaylistConsolidator.add_song_to_playlist\<close>. The consolidator shares the song manager;
  its own state is the list \<open>playlist_songs\<close>. \<open>now\<close> is the reading of the clock.
\<close>

definition add_song_to_playlist ::
  "string \<Rightarrow> string \<Rightarrow> string \<Rightarrow> track_info \<Rightarrow> download_result \<Rightarrow>
   song_manager \<times> string list \<Rightarrow> song_manager \<times> string list" where
  "add_song_to_playlist now pname sid track res st =
     (case st of (mgr, playlist_songs) \<Rightarrow>
        let consolidated_path = get_consolidated_song_path sid ''.mp3'';
            new_info = \<lparr>info_song_id = sid, info_filename = path_name consolidated_path,
                          original_filename = filename res,
                          file_path = path_str consolidated_path,
                          metadata = track, playlists = [pname],
                          added_at = now, last_updated = now,
                          song_download_info =
                            \<lparr>info_video_title = video_title res,
                             info_search_query = search_query res,
                             download_status = status res, downloaded_at = now\<rparr>\<rparr>;
            mgr' =
              (case map_of (existing_songs mgr) sid of
                 Some existing_song \<Rightarrow>
                   if pname \<notin> set (playlists existing_song)
                   then mgr\<lparr>existing_songs :=
                              AList.update sid
                                (existing_song\<lparr>playlists := playlists existing_song @ [pname],
                                                last_updated := now\<rparr>)
                                (existing_songs mgr)\<rparr>
                   else mgr
               | None \<Rightarrow>
                   register_song sid track
                     (mgr\<lparr>existing_songs := AList.update sid new_info (existing_songs mgr)\<rparr>))
        in (mgr', if sid \<notin> set playlist_songs then playlist_songs @ [sid] else playlist_songs))"

text \<open>\<open>PlaylistConsolidator.save_consolidated_metadata\<close>: the three tables are rewritten.\<close>

definition rebuild_mapping ::
  "(string, song_info) dict \<Rightarrow> (string, string list) dict \<Rightarrow> (string, string list) dict" where
  "rebuild_mapping all_songs all_mappings =
     fold (\<lambda>(sid, info) m. if playlists info \<noteq> [] then AList.update sid (playlists info) m else m)
       all_songs all_mappings"

definition save_consolidated_metadata ::
  "song_manager \<Rightarrow> string \<Rightarrow> playlist_metadata \<Rightarrow> disk \<Rightarrow> disk" where
  "save_consolidated_metadata mgr pname pmeta d =
     (let all_songs = dict_update (table (songs_database d)) (existing_songs mgr);
          all_playlists = AList.update pname pmeta (table (playlists_database d));
          all_mappings = rebuild_mapping all_songs (table (song_playlist_mapping d))
      in \<lparr>songs_database = Some all_songs, playlists_database = Some all_playlists,
          song_playlist_mapping = Some all_mappings\<rparr>)"

section \<open>Capture Deduplicator\<close>

text \<open>
  The capture loop polls the list of intercepted requests; the raw event stream is the
  sequence of requests in the order the loop meets them, a request met again on a later
  poll included. \<open>Page\<close> is a decoded body for which \<open>is_playlist_items_response\<close> holds,
  with its item array; \<open>Other\<close> is any other body.
\<close>

datatype parsed_response = Other | Page "raw_item list"

record request =
  request_id :: string
  request_url :: string
  response :: "parsed_response option"

definition TARGET_API_URL :: string where
  "TARGET_API_URL = ''https://api-partner.spotify.com/pathfinder/v2/query''"

fun is_prefix :: "string \<Rightarrow> string \<Rightarrow> bool" where
  "is_prefix [] ys = True"
| "is_prefix (x # xs) [] = False"
| "is_prefix (x # xs) (y # ys) = (x = y \<and> is_prefix xs ys)"

fun contains :: "string \<Rightarrow> string \<Rightarrow> bool" where
  "contains xs [] = (xs = [])"
| "contains xs (y # ys) = (is_prefix xs (y # ys) \<or> contains xs ys)"

fun capture_requests ::
  "request list \<Rightarrow> string list \<times> raw_item list \<Rightarrow> string list \<times> raw_item list" where
  "capture_requests [] st = st"
| "capture_requests (r # rs) (seen_requests, all_playlist_items) =
     (case response r of
        Some body \<Rightarrow>
          if request_id r \<notin> set seen_requests \<and> contains TARGET_API_URL (request_url r)
          then capture_requests rs
                 (request_id r # seen_requests,
                  (case body of Page items_in_response \<Rightarrow> all_playlist_items @ items_in_response
                   | Other \<Rightarrow> all_playlist_items))
          else capture_requests rs (seen_requests, all_playlist_items)
      | None \<Rightarrow> capture_requests rs (seen_requests, all_playlist_items))"

section \<open>Download controller and downloads\<close>

text \<open>
  \<open>DownloadController.cancelled\<close> is set by the command thread and never reset. The reads
  of the flag by the processing thread are numbered; the controller is the number of the
  first read that sees the flag set, \<open>None\<close> when the user never cancels. \<open>check_pause\<close>
  returns \<open>not self.cancelled\<close> once its wait is over; the wait itself is not modelled.
\<close>

type_synonym controller = "nat option"

definition is_cancelled :: "controller \<Rightarrow> nat \<Rightarrow> bool" where
  "is_cancelled ctl t = (case ctl of None \<Rightarrow> False | Some k \<Rightarrow> k \<le> t)"

definition check_pause :: "controller \<Rightarrow> nat \<Rightarrow> bool" where
  "check_pause ctl t = (\<not> is_cancelled ctl t)"

text \<open>
  What the external search-and-fetch tool does on one attempt: the search finds nothing,
  the search raises, or it finds a video whose fetch leaves a file, leaves none, or raises.
\<close>

datatype fetch = Fetched | NoFile | FetchRaised string

datatype attempt = NoResults | SearchRaised string | Found string fetch

record download_env =
  attempts :: "nat \<Rightarrow> attempt"
  consolidated_exists :: bool

definition cancelled_by_user :: "download_result \<Rightarrow> download_result" where
  "cancelled_by_user res = res\<lparr>status := ''cancelled'', error := Some ''Download cancelled by user''\<rparr>"

fun attempt_loop ::
  "controller \<Rightarrow> (nat \<Rightarrow> attempt) \<Rightarrow> string \<Rightarrow> nat \<Rightarrow> nat \<Rightarrow> nat \<Rightarrow> download_result \<Rightarrow>
   download_result \<times> nat" where
  "attempt_loop ctl outcome base 0 i t res = (res, t)"
| "attempt_loop ctl outcome base (Suc n) i t res =
     (if \<not> check_pause ctl t then (cancelled_by_user res, Suc t)
      else
        case outcome i of
          NoResults \<Rightarrow>
            attempt_loop ctl outcome base n (Suc i) (Suc t)
              (res\<lparr>error := Some ''No search results found''\<rparr>)
        | SearchRaised e \<Rightarrow>
            attempt_loop ctl outcome base n (Suc i) (Suc t) (res\<lparr>error := Some e\<rparr>)
        | Found title f \<Rightarrow>
            let res1 = res\<lparr>video_title := Some title\<rparr> in
            if \<not> check_pause ctl (Suc t) then (cancelled_by_user res1, Suc (Suc t))
            else
              (case f of
                 Fetched \<Rightarrow>
                   (res1\<lparr>status := ''success'', filename := Some (base @ ''.mp3'')\<rparr>, Suc (Suc t))
               | NoFile \<Rightarrow> attempt_loop ctl outcome base n (Suc i) (Suc (Suc t)) res1
               | FetchRaised e \<Rightarrow>
                   attempt_loop ctl outcome base n (Suc i) (Suc (Suc t))
                     (res1\<lparr>error := Some e\<rparr>)))"

definition search_and_download_audio_smart ::
  "controller \<Rightarrow> download_env \<Rightarrow> track_info \<Rightarrow> nat \<Rightarrow> download_result \<times> nat" where
  "search_and_download_audio_smart ctl env track t =
     (let blank = \<lparr>result_track_name = track_name track, result_artists = artists_string track,
                    search_query = [], status = ''failed'', error = None, filename = None,
                    video_title = None, result_metadata = track,
                    result_song_id = song_id track\<rparr>;
          query = strip (track_name track @ '' '' @ artists_string track);
          safe_filename = sanitize_filename (track_name track @ '' - '' @ artists_string track)
      in if \<not> check_pause ctl t then (cancelled_by_user blank, Suc t)
         else if skip_download track \<and> consolidated_exists env then
           (blank\<lparr>search_query := query, status := ''existing'',
                   filename := Some (song_id track @ ''.mp3''),
                   video_title := Some ''Using existing file''\<rparr>, Suc t)
         else if \<not> fst (validate_track_data track) then
           (blank\<lparr>status := ''skipped'',
                   error := Some (''Invalid track data: '' @ snd (validate_track_data track))\<rparr>,
            Suc t)
         else if safe_filename = [] \<or> safe_filename = ''unknown_file'' then
           (blank\<lparr>search_query := query, error := Some ''Could not create valid filename''\<rparr>,
            Suc t)
         else
           attempt_loop ctl (attempts env)
             (if song_id track \<noteq> [] \<and> song_id track \<noteq> ''unknown_song''
              then song_id track else safe_filename)
             MAX_RETRIES 0 (Suc t) (blank\<lparr>search_query := query\<rparr>))"

section \<open>Processing one capture job\<close>

text \<open>
  What the outside world supplies to one run of \<open>process_single_playlist\<close>: the raw event
  stream, the number of polls of the waiting loop before the user's \<open>stop\<close> command, the
  behaviour of the fetch tool for each track, and the clock read at each track.
\<close>

record job_env =
  events :: "request list"
  capture_polls :: nat
  downloads :: "nat \<Rightarrow> download_env"
  clock :: "nat \<Rightarrow> string"

record loop_state =
  manager :: song_manager
  playlist_songs :: "string list"
  successful :: nat
  failed_downloads :: nat
  skipped_downloads :: nat
  existing_reused :: nat
  cancelled_downloads :: nat
  download_log :: "download_result list"
  tick :: nat

text \<open>
  The loop \<open>for i, track in enumerate(tracks, 1)\<close> of phase 3, past its two checks of the
  controller. \<open>track_result\<close> is the \<open>result\<close> built for a track, with the number of reads
  of the cancel flag after it; \<open>after_track\<close> appends it to \<open>download_log\<close> and adds the song
  to the consolidator; \<open>count_result\<close> is the chain of counter updates.
\<close>

definition track_result ::
  "controller \<Rightarrow> bool \<Rightarrow> download_env \<Rightarrow> track_info \<Rightarrow> nat \<Rightarrow> download_result \<times> nat" where
  "track_result ctl approved denv track t =
     (if skip_download track then
        (\<lparr>result_track_name = track_name track, result_artists = artists_string track,
          search_query = track_name track @ '' '' @ artists_string track,
          status = ''existing'', error = None,
          filename = Some (song_id track @ ''.mp3''),
          video_title = Some ''Using existing file'', result_metadata = track,
          result_song_id = song_id track\<rparr>, t)
      else if approved then search_and_download_audio_smart ctl denv track t
      else
        (\<lparr>result_track_name = track_name track, result_artists = artists_string track,
          search_query = track_name track @ '' '' @ artists_string track,
          status = ''skipped'', error = Some ''Download skipped by user for batch'',
          filename = None, video_title = None, result_metadata = track,
          result_song_id = song_id track\<rparr>, t))"

definition after_track ::
  "string \<Rightarrow> string \<Rightarrow> track_info \<Rightarrow> download_result \<Rightarrow> nat \<Rightarrow> loop_state \<Rightarrow> loop_state" where
  "after_track now pname track res t st =
     (case add_song_to_playlist now pname (song_id track) track res
             (manager st, playlist_songs st) of
        (mgr', songs') \<Rightarrow>
          st\<lparr>manager := mgr', playlist_songs := songs',
             existing_reused :=
               (if skip_download track then Suc (existing_reused st) else existing_reused st),
             download_log := download_log st @ [res], tick := t\<rparr>)"

definition count_result :: "download_result \<Rightarrow> loop_state \<Rightarrow> loop_state" where
  "count_result res st =
     (if status res = ''success'' then st\<lparr>successful := Suc (successful st)\<rparr>
      else if status res = ''existing'' then st\<lparr>existing_reused := Suc (existing_reused st)\<rparr>
      else if status res = ''skipped'' then st\<lparr>skipped_downloads := Suc (skipped_downloads st)\<rparr>
      else if status res = ''cancelled''
      then st\<lparr>cancelled_downloads := Suc (cancelled_downloads st)\<rparr>
      else st\<lparr>failed_downloads := Suc (failed_downloads st)\<rparr>)"

text \<open>A \<open>break\<close> returns the state; the recursive call is the next iteration.\<close>

fun download_loop ::
  "controller \<Rightarrow> bool \<Rightarrow> string \<Rightarrow> job_env \<Rightarrow> nat \<Rightarrow> track_info list \<Rightarrow> loop_state \<Rightarrow> loop_state"
  where
  "download_loop ctl approved pname env i [] st = st"
| "download_loop ctl approved pname env i (track # rest) st =
     (if is_cancelled ctl (tick st) then st\<lparr>tick := Suc (tick st)\<rparr>
      else if \<not> check_pause ctl (Suc (tick st)) then st\<lparr>tick := Suc (Suc (tick st))\<rparr>
      else
        case track_result ctl approved (downloads env i) track (Suc (Suc (tick st))) of
          (res, t) \<Rightarrow>
            if status res = ''cancelled''
            then count_result res (after_track (clock env i) pname track res t st)
            else download_loop ctl approved pname env (Suc i) rest
                   (count_result res (after_track (clock env i) pname track res t st)))"

text \<open>The waiting loop \<open>while not stop_capture and not controller.is_cancelled()\<close>.\<close>

fun wait_for_capture :: "controller \<Rightarrow> nat \<Rightarrow> nat \<Rightarrow> nat" where
  "wait_for_capture ctl 0 t = t"
| "wait_for_capture ctl (Suc polls) t =
     (if is_cancelled ctl t then Suc t else wait_for_capture ctl polls (Suc t))"

text \<open>
  The dictionary returned by \<open>process_single_playlist\<close>; an absent key is what
  \<open>result.get\<close> reads for it (\<open>None\<close>, or \<open>0\<close>).
\<close>

record job_result =
  result_error :: "string option"
  tracks_count :: nat
  success_count :: nat
  failed_count :: nat
  cancelled_count :: nat

text \<open>
  The state a job runs in: the shared song manager, the three files, the number of reads
  of the cancel flag so far, and what the job has written to its own files (the skip log
  and the \<open>download_results\<close> of its summary).
\<close>

record world =
  song_mgr :: song_manager
  files :: disk
  reads :: nat
  skipped_tracks_log :: "skip_entry list"
  download_results :: "download_result list"

definition error_result :: "string \<Rightarrow> job_result" where
  "error_result msg =
     \<lparr>result_error = Some msg, tracks_count = 0, success_count = 0, failed_count = 0,
      cancelled_count = 0\<rparr>"

definition set_playlist_metadata ::
  "string \<Rightarrow> string list \<Rightarrow> nat \<Rightarrow> nat \<Rightarrow> string \<Rightarrow> string \<Rightarrow> playlist_metadata" where
  "set_playlist_metadata pname psongs ntracks ok url now =
     \<lparr>playlist_name = pname, total_tracks = ntracks, successful_downloads = ok,
      source_url = url, timestamp = now, songs = psongs,
      unique_song_count = length psongs, created_at = now\<rparr>"

definition process_single_playlist ::
  "job_env \<Rightarrow> controller \<Rightarrow> bool \<Rightarrow> string \<Rightarrow> string \<Rightarrow> world \<Rightarrow> job_result \<times> world" where
  "process_single_playlist env ctl approved pname url w =
     (if is_cancelled ctl (reads w)
      then (error_result ''Batch process cancelled'', w\<lparr>reads := Suc (reads w)\<rparr>)
      else
        let all_playlist_items = snd (capture_requests (events env) ([], []));
            t1 = wait_for_capture ctl (capture_polls env) (Suc (reads w))
        in if is_cancelled ctl t1
           then (error_result ''Batch process cancelled'', w\<lparr>reads := Suc t1\<rparr>)
           else if all_playlist_items = []
           then (error_result ''No playlist items captured'', w\<lparr>reads := Suc t1\<rparr>)
           else
             let (tracks, skipped) = extract_enhanced_track_info (song_mgr w) all_playlist_items;
                 w1 = w\<lparr>reads := Suc t1, skipped_tracks_log := skipped\<rparr>
             in if tracks = []
                then (error_result ''No valid tracks extracted'', w1)
                else
                  let st = download_loop ctl approved pname env 0 tracks
                             \<lparr>manager = song_mgr w, playlist_songs = [], successful = 0,
                              failed_downloads = 0, skipped_downloads = 0, existing_reused = 0,
                              cancelled_downloads = 0, download_log = [], tick = Suc t1\<rparr>;
                      pmeta = set_playlist_metadata pname (playlist_songs st) (length tracks)
                                (successful st) url (clock env (length tracks))
                  in (\<lparr>result_error = None, tracks_count = length tracks,
                        success_count = successful st + existing_reused st,
                        failed_count = failed_downloads st,
                        cancelled_count = cancelled_downloads st\<rparr>,
                      w1\<lparr>song_mgr := manager st,
                         files := save_consolidated_metadata (manager st) pname pmeta (files w),
                         reads := tick st, download_results := download_log st\<rparr>))"

text \<open>
  \<open>run_single_playlist_mode\<close>, with the two lines the user types: the URL and the playlist
  name. Without a URL it returns at once (\<open>None\<close>). The playlist name is the sanitized
  name typed, or \<open>playlist_\<close> and the last segment of the URL up to its query when none is
  typed. The job runs with a fresh song manager loaded from the files, a fresh controller
  that no thread ever cancels, and downloads enabled.
\<close>

definition run_single_playlist_mode ::
  "job_env \<Rightarrow> string \<Rightarrow> string \<Rightarrow> disk \<Rightarrow> (job_result \<times> world) option" where
  "run_single_playlist_mode env url_input name_input d =
     (let spotify_url = strip url_input
      in if spotify_url = [] then None
         else
           let playlist_name_input = strip name_input;
               playlist_name =
                 (if playlist_name_input \<noteq> [] then sanitize_filename playlist_name_input
                  else ''playlist_'' @ hd (split_on CHR ''?'' (last (split_on CHR ''/'' spotify_url))))
           in Some (process_single_playlist env None True playlist_name spotify_url
                      \<lparr>song_mgr = load_existing_database d, files = d, reads = 0,
                       skipped_tracks_log = [], download_results = []\<rparr>))"

section \<open>Batch controller\<close>

record job =
  job_name :: string
  job_url :: string
  job_status :: string
  processed_at :: "string option"
  job_tracks_count :: nat
  job_success_count :: nat
  job_error :: "string option"

record batch =
  batch_playlists :: "job list"
  current_playlist_index :: nat


definition mark_playlist_completed :: "string \<Rightarrow> nat \<Rightarrow> nat \<Rightarrow> string option \<Rightarrow> batch \<Rightarrow> batch" where
  "mark_playlist_completed now tracks ok err b =
     (if current_playlist_index b < length (batch_playlists b)
      then b\<lparr>batch_playlists :=
                (batch_playlists b)[current_playlist_index b :=
                   (batch_playlists b ! current_playlist_index b)
                     \<lparr>job_status := (if err = None then ''completed'' else ''failed''),
                      processed_at := Some now, job_tracks_count := tracks,
                      job_success_count := ok, job_error := err\<rparr>],
              current_playlist_index := Suc (current_playlist_index b)\<rparr>
      else b)"

text \<open>
  What the outside world supplies to a batch run: for the job at each index its
  environment and the line the user types at the prompt between playlists, the
  controller, and the answer to the download question.
\<close>

record batch_env =
  job_envs :: "nat \<Rightarrow> job_env"
  prompt_input :: "nat \<Rightarrow> string"
  batch_controller :: controller
  download_approval :: bool

text \<open>
  The state of the loop of \<open>run_batch_processing_mode\<close>: the batch (saved to its file by
  every \<open>mark_playlist_completed\<close>), the world, and the indices of the jobs that
  \<open>process_single_playlist\<close> was called for, in order.
\<close>

record batch_state =
  the_batch :: batch
  the_world :: world
  processed :: "nat list"

text \<open>
  The branches that follow the call of \<open>process_single_playlist\<close>: \<open>job_cancelled\<close> is the
  condition of the second branch, with \<open>seen\<close> the value of \<open>controller.is_cancelled()\<close>
  there, and \<open>record_outcome\<close> is the call of \<open>mark_playlist_completed\<close> of each branch.
\<close>

definition job_failed :: "job_result \<Rightarrow> bool" where
  "job_failed res = (result_error res \<noteq> None \<and> result_error res \<noteq> Some [])"

definition job_cancelled :: "job_result \<Rightarrow> bool \<Rightarrow> bool" where
  "job_cancelled res seen = (\<not> job_failed res \<and> (cancelled_count res > 0 \<or> seen))"

definition record_outcome :: "string \<Rightarrow> job_result \<Rightarrow> bool \<Rightarrow> batch \<Rightarrow> batch" where
  "record_outcome now res seen b =
     (if job_failed res then mark_playlist_completed now 0 0 (result_error res) b
      else if cancelled_count res > 0 \<or> seen
      then mark_playlist_completed now (tracks_count res) (success_count res)
             (Some ''Cancelled by user'') b
      else mark_playlist_completed now (tracks_count res) (success_count res) None b)"

fun batch_loop :: "batch_env \<Rightarrow> nat list \<Rightarrow> batch_state \<Rightarrow> batch_state" where
  "batch_loop be [] s = s"
| "batch_loop be (i # rest) s =
     (let ctl = batch_controller be;
          t = reads (the_world s);
          playlist = batch_playlists (the_batch s) ! i
      in if is_cancelled ctl t then s\<lparr>the_world := (the_world s)\<lparr>reads := Suc t\<rparr>\<rparr>
         else if job_status playlist \<noteq> ''pending''
         then batch_loop be rest (s\<lparr>the_world := (the_world s)\<lparr>reads := Suc t\<rparr>\<rparr>)
         else if \<not> check_pause ctl (Suc t)
         then s\<lparr>the_world := (the_world s)\<lparr>reads := Suc (Suc t)\<rparr>\<rparr>
         else if PAUSE_BETWEEN_PLAYLISTS \<and> i > current_playlist_index (the_batch s) \<and>
                 lower (strip (prompt_input be i)) = ''skip''
         then batch_loop be rest
                (s\<lparr>the_batch := mark_playlist_completed (clock (job_envs be i) 0) 0 0
                                   (Some ''Skipped by user'') (the_batch s),
                   the_world := (the_world s)\<lparr>reads := Suc (Suc t)\<rparr>\<rparr>)
         else
           case process_single_playlist (job_envs be i) ctl (download_approval be)
                  (job_name playlist) (job_url playlist)
                  ((the_world s)\<lparr>reads := Suc (Suc t)\<rparr>) of
             (res, w) \<Rightarrow>
               let seen = (\<not> job_failed res \<and> cancelled_count res = 0 \<and>
                           is_cancelled ctl (reads w));
                   s1 = \<lparr>the_batch = record_outcome (clock (job_envs be i) 0) res seen
                                       (the_batch s),
                         the_world = (if \<not> job_failed res \<and> cancelled_count res = 0
                                      then w\<lparr>reads := Suc (reads w)\<rparr> else w),
                         processed = processed s @ [i]\<rparr>
               in if job_cancelled res seen then s1 else batch_loop be rest s1)"

text \<open>
  \<open>run_batch_processing_mode\<close> on a batch that \<open>setup_batch_processing\<close> returned:
  nothing is processed when the batch is empty or holds no pending job.
\<close>

definition run_batch_processing_mode :: "batch_env \<Rightarrow> batch \<Rightarrow> disk \<Rightarrow> batch_state" where
  "run_batch_processing_mode be b d =
     (let s = \<lparr>the_batch = b,
               the_world = \<lparr>song_mgr = load_existing_database d, files = d, reads = 0,
                            skipped_tracks_log = [], download_results = []\<rparr>,
               processed = []\<rparr>
      in if batch_playlists b = [] \<or>
            filter (\<lambda>p. job_status p = ''pending'') (batch_playlists b) = []
         then s
         else batch_loop be [current_playlist_index b ..< length (batch_playlists b)] s)"

section \<open>Vocabulary of the statements\<close>

text \<open>
  The name+performer key that \<open>load_existing_database\<close>, \<open>find_existing_song\<close> and
  \<open>add_song_to_playlist\<close> each compute from a track's metadata: \<open>None\<close> when the lowered,
  stripped name or performer string is empty.
\<close>

definition name_artist_key :: "track_info \<Rightarrow> string option" where
  "name_artist_key info =
     (let tname = strip (lower (track_name info));
          tartists = strip (lower (artists_string info))
      in if tname \<noteq> [] \<and> tartists \<noteq> [] then Some (tname @ ''|'' @ tartists) else None)"

text \<open>
  The look-up tables of a song manager are sound when every identifier they hold is a key
  of the song table and no URI key is empty.
\<close>

definition catalog_ok :: "song_manager \<Rightarrow> bool" where
  "catalog_ok mgr =
     ((\<forall>u sid. map_of (uri_to_song_id mgr) u = Some sid \<longrightarrow>
                u \<noteq> [] \<and> sid \<in> fst ` set (existing_songs mgr)) \<and>
      (\<forall>k sid. map_of (name_artist_to_song_id mgr) k = Some sid \<longrightarrow>
                sid \<in> fst ` set (existing_songs mgr)))"

text \<open>
  A sequence of upserts on a song manager, each with its reading of the clock, its playlist,
  the identifier, the track and the download result. The song manager that
  \<open>add_song_to_playlist\<close> returns does not depend on the consolidator's list.
\<close>

definition upserts ::
  "(string \<times> string \<times> string \<times> track_info \<times> download_result) list \<Rightarrow> song_manager \<Rightarrow>
   song_manager" where
  "upserts ups mgr =
     fold (\<lambda>(now, pname, sid, track, res) m.
             fst (add_song_to_playlist now pname sid track res (m, []))) ups mgr"

text \<open>A raw item that passes the type check and the validation gate: it yields an item record.\<close>

definition valid_item :: "raw_item \<Rightarrow> bool" where
  "valid_item item =
     (case item of
        NotADict \<Rightarrow> False
      | ItemV2 typename track_data \<Rightarrow>
          safe_get typename ''Unknown'' = ''TrackResponseWrapper'' \<and>
          fst (validate_track_data (preliminary_track_info track_data)))"

definition item_record :: "raw_item \<Rightarrow> track_info" where
  "item_record item =
     (case item of ItemV2 typename track_data \<Rightarrow> preliminary_track_info track_data)"

text \<open>
  Capture jobs run one after the other on the shared song manager and files, none of them
  cancelled: each job with its environment, the answer to the download question, the
  playlist name and the URL.
\<close>

definition run_jobs :: "(job_env \<times> bool \<times> string \<times> string) list \<Rightarrow> world \<Rightarrow> world" where
  "run_jobs jobs w =
     fold (\<lambda>(env, approved, pname, url) w.
             snd (process_single_playlist env None approved pname url w)) jobs w"

text \<open>
  A song of the song manager that lists a playlist; the identifier that \<open>find_existing_song\<close>
  looks up for a track, by URI first and by the name+performer key next; and a song
  manager whose look-up tables hold what those of an earlier one hold, or identifiers of
  songs that list the playlist.
\<close>

definition lists_playlist :: "string \<Rightarrow> song_manager \<Rightarrow> string \<Rightarrow> bool" where
  "lists_playlist pname m sid =
     (case map_of (existing_songs m) sid of
        Some info \<Rightarrow> pname \<in> set (playlists info) | None \<Rightarrow> False)"

definition found_id :: "song_manager \<Rightarrow> track_info \<Rightarrow> string option" where
  "found_id m info =
     (case (if track_uri info \<noteq> [] then map_of (uri_to_song_id m) (track_uri info) else None) of
        Some sid \<Rightarrow> Some sid
      | None \<Rightarrow> (case name_artist_key info of
                    Some k \<Rightarrow> map_of (name_artist_to_song_id m) k | None \<Rightarrow> None))"

definition index_grows :: "string \<Rightarrow> song_manager \<Rightarrow> song_manager \<Rightarrow> bool" where
  "index_grows pname m0 m =
     ((\<forall>u. map_of (uri_to_song_id m) u = None \<longrightarrow> map_of (uri_to_song_id m0) u = None) \<and>
      (\<forall>u s. map_of (uri_to_song_id m) u = Some s \<longrightarrow>
         map_of (uri_to_song_id m0) u = Some s \<or> (s \<noteq> [] \<and> lists_playlist pname m s)) \<and>
      (\<forall>k. map_of (name_artist_to_song_id m) k = None \<longrightarrow>
         map_of (name_artist_to_song_id m0) k = None) \<and>
      (\<forall>k s. map_of (name_artist_to_song_id m) k = Some s \<longrightarrow>
         map_of (name_artist_to_song_id m0) k = Some s \<or> (s \<noteq> [] \<and> lists_playlist pname m s)))"

section \<open>Example inputs\<close>

text \<open>
  Two raw items that carry the same track URI under different names, a capture job whose
  only page holds both, an empty catalog and a batch environment for such jobs.
\<close>

definition item_a :: raw_item where
  "item_a = ItemV2 (Some ''TrackResponseWrapper'')
     \<lparr>name = Some ''a'', uri = Some ''spotify:track:1'',
      artist_items = [\<lparr>profile_name = Some ''x'', artist_uri = Some ''spotify:artist:9''\<rparr>],
      album_of_track_name = Some ''Album'', album_of_track_uri = None\<rparr>"

definition item_b :: raw_item where
  "item_b = ItemV2 (Some ''TrackResponseWrapper'')
     \<lparr>name = Some ''b'', uri = Some ''spotify:track:1'',
      artist_items = [\<lparr>profile_name = Some ''x'', artist_uri = Some ''spotify:artist:9''\<rparr>],
      album_of_track_name = Some ''Album'', album_of_track_uri = None\<rparr>"

text \<open>The item records of the two items, before resolution.\<close>

definition track_a :: track_info where
  "track_a = \<lparr>track_name = ''a'', track_uri = ''spotify:track:1'', artists = [''x''],
     artist_uris = [''spotify:artist:9''], artists_string = ''x'', album_name = ''Album'',
     album_uri = [], song_id = [], skip_download = False, existing_song_found = False\<rparr>"

definition track_b :: track_info where
  "track_b = track_a\<lparr>track_name := ''b''\<rparr>"

text \<open>An item whose name is blank.\<close>

definition item_blank :: raw_item where
  "item_blank = ItemV2 (Some ''TrackResponseWrapper'')
     \<lparr>name = Some ''  '', uri = Some ''spotify:track:2'',
      artist_items = [\<lparr>profile_name = Some ''x'', artist_uri = Some ''spotify:artist:9''\<rparr>],
      album_of_track_name = None, album_of_track_uri = None\<rparr>"

definition example_env :: "raw_item list \<Rightarrow> job_env" where
  "example_env page =
     \<lparr>events = [\<lparr>request_id = ''1'', request_url = TARGET_API_URL, response = Some (Page page)\<rparr>],
      capture_polls = 1,
      downloads = (\<lambda>i. \<lparr>attempts = (\<lambda>k. Found ''video'' Fetched), consolidated_exists = False\<rparr>),
      clock = (\<lambda>i. ''now'')\<rparr>"

definition empty_disk :: disk where
  "empty_disk = \<lparr>songs_database = None, playlists_database = None, song_playlist_mapping = None\<rparr>"

definition pending_job :: "string \<Rightarrow> job" where
  "pending_job n =
     \<lparr>job_name = n, job_url = ''url'', job_status = ''pending'', processed_at = None,
      job_tracks_count = 0, job_success_count = 0, job_error = None\<rparr>"

definition example_batch_env :: "controller \<Rightarrow> batch_env" where
  "example_batch_env ctl =
     \<lparr>job_envs = (\<lambda>i. example_env [item_a, item_b]), prompt_input = (\<lambda>i. []),
      batch_controller = ctl, download_approval = True\<rparr>"

text \<open>The result of a download that succeeded.\<close>

definition example_result :: "track_info \<Rightarrow> download_result" where
  "example_result track =
     \<lparr>result_track_name = track_name track, result_artists = artists_string track,
      search_query = track_name track @ '' '' @ artists_string track, status = ''success'',
      error = None, filename = Some (song_id track @ ''.mp3''), video_title = Some ''video'',
      result_metadata = track, result_song_id = song_id track\<rparr>"



section \<open>Job names as playlist keys\<close>
















section \<open>The example inputs, evaluated\<close>

lemma song_id_a: "generate_song_id ''a'' ''x'' = ''song_d4bb73c2c32a''"
  by code_simp

lemma song_id_b: "generate_song_id ''b'' ''x'' = ''song_f8228e343e33''"
  by code_simp

lemma fields_a:
  "track_name track_a = ''a''" "artists_string track_a = ''x''" "track_uri track_a = ''spotify:track:1''"
  "skip_download track_a = False" "song_id track_a = []"
  by (simp_all add: track_a_def)

lemma fields_b:
  "track_name track_b = ''b''" "artists_string track_b = ''x''" "track_uri track_b = ''spotify:track:1''"
  "skip_download track_b = False" "song_id track_b = []"
  by (simp_all add: track_b_def track_a_def)

lemma typename_track: "safe_get (Some ''TrackResponseWrapper'') ''Unknown'' = ''TrackResponseWrapper''"
  by code_simp

lemma preliminary_a:
  "preliminary_track_info \<lparr>name = Some ''a'', uri = Some ''spotify:track:1'',
      artist_items = [\<lparr>profile_name = Some ''x'', artist_uri = Some ''spotify:artist:9''\<rparr>],
      album_of_track_name = Some ''Album'', album_of_track_uri = None\<rparr> = track_a"
  unfolding track_a_def by code_simp

lemma preliminary_b:
  "preliminary_track_info \<lparr>name = Some ''b'', uri = Some ''spotify:track:1'',
      artist_items = [\<lparr>profile_name = Some ''x'', artist_uri = Some ''spotify:artist:9''\<rparr>],
      album_of_track_name = Some ''Album'', album_of_track_uri = None\<rparr> = track_b"
  unfolding track_b_def track_a_def by code_simp

lemma valid_a: "validate_track_data track_a = (True, ''Valid'')"
  unfolding track_a_def by code_simp

lemma valid_b: "validate_track_data track_b = (True, ''Valid'')"
  unfolding track_b_def track_a_def by code_simp

lemma find_new: "find_existing_song new_song_manager info = Inr None"
  by (simp add: find_existing_song_def new_song_manager_def Let_def)

lemma extract_a_new:
  "extract_item new_song_manager item_a =
     (Some (track_a\<lparr>song_id := ''song_d4bb73c2c32a''\<rparr>), [])"
  by (simp add: extract_item_def item_a_def typename_track preliminary_a valid_a resolve_track_def
      find_new ENABLE_SMART_DEDUPLICATION_def SKIP_INVALID_TRACKS_def Let_def fields_a song_id_a)
     (simp add: track_a_def)

lemma extract_b_new:
  "extract_item new_song_manager item_b =
     (Some (track_b\<lparr>song_id := ''song_f8228e343e33''\<rparr>), [])"
  by (simp add: extract_item_def item_b_def typename_track preliminary_b valid_b resolve_track_def
      find_new ENABLE_SMART_DEDUPLICATION_def SKIP_INVALID_TRACKS_def Let_def fields_b song_id_b)
     (simp add: track_b_def track_a_def)

lemma extract_ab_new:
  "extract_enhanced_track_info new_song_manager [item_a, item_b] =
     ([track_a\<lparr>song_id := ''song_d4bb73c2c32a''\<rparr>, track_b\<lparr>song_id := ''song_f8228e343e33''\<rparr>], [])"
  by (simp add: extract_enhanced_track_info_def List.map_filter_def extract_a_new extract_b_new)

lemma capture_example:
  "snd (capture_requests (events (example_env page)) ([], [])) = page"
proof -
  have "contains TARGET_API_URL TARGET_API_URL" by code_simp
  then show ?thesis by (simp add: example_env_def)
qed

lemma load_empty: "load_existing_database empty_disk = new_song_manager"
  by (simp add: load_existing_database_def empty_disk_def table_def)

lemma valid_a': "validate_track_data (track_a\<lparr>song_id := s\<rparr>) = (True, ''Valid'')"
  using valid_a by (simp add: validate_track_data_def)

lemma valid_b': "validate_track_data (track_b\<lparr>song_id := s\<rparr>) = (True, ''Valid'')"
  using valid_b by (simp add: validate_track_data_def)

lemma sanitize_ab:
  "sanitize_filename ''a - x'' = ''a-x''"
  "sanitize_filename ''b - x'' = ''b-x''"
  "strip ''a x'' = ''a x''" "strip ''b x'' = ''b x''"
  "strip (lower ''a'') = ''a''" "strip (lower ''b'') = ''b''" "strip (lower ''x'') = ''x''"
  by code_simp+

lemma download_a_cancelled:
  "search_and_download_audio_smart (Some 9) denv (track_a\<lparr>song_id := ''song_d4bb73c2c32a''\<rparr>) 7 =
     (\<lparr>result_track_name = ''a'', result_artists = ''x'', search_query = ''a x'',
       status = ''cancelled'', error = Some ''Download cancelled by user'', filename = None,
       video_title = Some ''video'', result_metadata = track_a\<lparr>song_id := ''song_d4bb73c2c32a''\<rparr>,
       result_song_id = ''song_d4bb73c2c32a''\<rparr>, 10)" if "attempts denv 0 = Found ''video'' Fetched"
  using that
  by (simp add: search_and_download_audio_smart_def Let_def is_cancelled_def check_pause_def valid_a'
      fields_a sanitize_ab MAX_RETRIES_def numeral_3_eq_3 cancelled_by_user_def)

lemma example_env_fields:
  "capture_polls (example_env page) = 1"
  "downloads (example_env page) i = \<lparr>attempts = (\<lambda>k. Found ''video'' Fetched), consolidated_exists = False\<rparr>"
  "clock (example_env page) i = ''now''"
  by (simp_all add: example_env_def)

lemma process_cancelled:
  "let p = process_single_playlist (example_env [item_a, item_b]) (Some 9) True ''P1'' ''url''
     \<lparr>song_mgr = new_song_manager, files = empty_disk, reads = 2, skipped_tracks_log = [],
      download_results = []\<rparr>
   in result_error (fst p) = None \<and> tracks_count (fst p) = 2 \<and> success_count (fst p) = 0 \<and>
      cancelled_count (fst p) = 1 \<and>
      map status (download_results (snd p)) = [''cancelled''] \<and> reads (snd p) = 10"
  by (simp add: process_single_playlist_def capture_example is_cancelled_def Let_def extract_ab_new
      example_env_fields check_pause_def track_result_def fields_a download_a_cancelled
      count_result_def after_track_def split: prod.splits)


lemmas process_cancelled' = process_cancelled[unfolded Let_def]

lemma batch_cancelled:
  "the_batch (run_batch_processing_mode (example_batch_env (Some 9))
      \<lparr>batch_playlists = [pending_job ''P1''], current_playlist_index = 0\<rparr> empty_disk) =
   \<lparr>batch_playlists = [(pending_job ''P1'')\<lparr>job_status := ''failed'', processed_at := Some ''now'',
        job_tracks_count := 2, job_error := Some ''Cancelled by user''\<rparr>],
    current_playlist_index = 1\<rparr>"
  by (simp add: run_batch_processing_mode_def batch_loop.simps load_empty example_batch_env_def pending_job_def
      is_cancelled_def check_pause_def PAUSE_BETWEEN_PLAYLISTS_def case_prod_beta Let_def
      numeral_2_eq_2[symmetric] process_cancelled' job_failed_def job_cancelled_def
      record_outcome_def mark_playlist_completed_def example_env_fields)

lemma batch_cancelled_log:
  "map status (download_results (the_world (run_batch_processing_mode (example_batch_env (Some 9))
      \<lparr>batch_playlists = [pending_job ''P1''], current_playlist_index = 0\<rparr> empty_disk))) =
   [''cancelled'']"
  by (simp add: run_batch_processing_mode_def batch_loop.simps load_empty example_batch_env_def pending_job_def
      is_cancelled_def check_pause_def PAUSE_BETWEEN_PLAYLISTS_def case_prod_beta Let_def
      numeral_2_eq_2[symmetric] process_cancelled' job_failed_def job_cancelled_def
      record_outcome_def mark_playlist_completed_def example_env_fields)

section \<open>Marking a job in the batch\<close>

lemma mark_length [simp]:
  "length (batch_playlists (mark_playlist_completed now tc sc err b)) = length (batch_playlists b)"
  by (simp add: mark_playlist_completed_def)


lemma mark_other:
  "j \<noteq> current_playlist_index b \<Longrightarrow>
   batch_playlists (mark_playlist_completed now tc sc err b) ! j = batch_playlists b ! j"
  by (simp add: mark_playlist_completed_def)

lemma mark_at_cursor:
  "current_playlist_index b < length (batch_playlists b) \<Longrightarrow>
   job_status (batch_playlists (mark_playlist_completed now tc sc err b) ! current_playlist_index b) =
     (if err = None then ''completed'' else ''failed'') \<and>
   job_error (batch_playlists (mark_playlist_completed now tc sc err b) ! current_playlist_index b) = err \<and>
   current_playlist_index (mark_playlist_completed now tc sc err b) = Suc (current_playlist_index b)"
  by (simp add: mark_playlist_completed_def)

lemma record_outcome_length [simp]:
  "length (batch_playlists (record_outcome now res seen b)) = length (batch_playlists b)"
  by (simp add: record_outcome_def)


lemma record_outcome_other:
  "j \<noteq> current_playlist_index b \<Longrightarrow>
   batch_playlists (record_outcome now res seen b) ! j = batch_playlists b ! j"
  by (simp add: record_outcome_def mark_other)

lemma record_outcome_at_cursor:
  assumes "current_playlist_index b < length (batch_playlists b)"
  shows "job_status (batch_playlists (record_outcome now res seen b) ! current_playlist_index b) =
           (if job_failed res \<or> job_cancelled res seen then ''failed'' else ''completed'') \<and>
         job_error (batch_playlists (record_outcome now res seen b) ! current_playlist_index b) =
           (if job_failed res then result_error res
            else if job_cancelled res seen then Some ''Cancelled by user'' else None) \<and>
         current_playlist_index (record_outcome now res seen b) = Suc (current_playlist_index b)"
  using mark_at_cursor[OF assms]
  by (auto simp: record_outcome_def job_cancelled_def job_failed_def)


section \<open>Cancellation during the download loop\<close>

lemma is_cancelled_mono: "is_cancelled ctl t \<Longrightarrow> t \<le> t' \<Longrightarrow> is_cancelled ctl t'"
  by (auto simp: is_cancelled_def split: option.splits)

lemma status_cancelled_by_user [simp]: "status (cancelled_by_user res) = ''cancelled''"
  by (simp add: cancelled_by_user_def)

lemma attempt_loop_cancelled:
  "status res \<noteq> ''cancelled'' \<Longrightarrow> 0 < t \<Longrightarrow> \<not> is_cancelled ctl (t - 1) \<Longrightarrow>
   attempt_loop ctl outcome base n i t res = (r, t2) \<Longrightarrow>
   t \<le> t2 \<and> (status r = ''cancelled'') = is_cancelled ctl (t2 - 1)"
proof (induction n arbitrary: i t res)
  case 0
  then show ?case by auto
next
  case (Suc n)
  show ?case
  proof (cases "is_cancelled ctl t")
    case True
    with Suc.prems show ?thesis by (auto simp: check_pause_def)
  next
    case nc: False
    show ?thesis
    proof (cases "outcome i")
      case NoResults
      with nc Suc.prems have "attempt_loop ctl outcome base n (Suc i) (Suc t) (res\<lparr>error := Some ''No search results found''\<rparr>) = (r, t2)"
        by (simp add: check_pause_def)
      from Suc.IH[OF _ _ _ this] nc Suc.prems(1) show ?thesis by simp
    next
      case (SearchRaised e)
      with nc Suc.prems have "attempt_loop ctl outcome base n (Suc i) (Suc t) (res\<lparr>error := Some e\<rparr>) = (r, t2)"
        by (simp add: check_pause_def)
      from Suc.IH[OF _ _ _ this] nc Suc.prems(1) show ?thesis by simp
    next
      case (Found title f)
      show ?thesis
      proof (cases "is_cancelled ctl (Suc t)")
        case True
        with nc Found Suc.prems show ?thesis by (auto simp: check_pause_def Let_def)
      next
        case nc2: False
        show ?thesis
        proof (cases f)
          case Fetched
          with nc nc2 Found Suc.prems show ?thesis by (auto simp: check_pause_def Let_def)
        next
          case NoFile
          with nc nc2 Found Suc.prems have "attempt_loop ctl outcome base n (Suc i) (Suc (Suc t)) (res\<lparr>video_title := Some title\<rparr>) = (r, t2)"
            by (simp add: check_pause_def Let_def)
          from Suc.IH[OF _ _ _ this] nc2 Suc.prems(1) show ?thesis by simp
        next
          case (FetchRaised e)
          with nc nc2 Found Suc.prems have "attempt_loop ctl outcome base n (Suc i) (Suc (Suc t)) (res\<lparr>video_title := Some title, error := Some e\<rparr>) = (r, t2)"
            by (simp add: check_pause_def Let_def)
          from Suc.IH[OF _ _ _ this] nc2 Suc.prems(1) show ?thesis by simp
        qed
      qed
    qed
  qed
qed

lemma search_and_download_cancelled:
  assumes "search_and_download_audio_smart ctl denv track t = (r, t2)"
  shows "t < t2 \<and> (status r = ''cancelled'') = is_cancelled ctl (t2 - 1)"
proof (cases "is_cancelled ctl t")
  case True
  with assms show ?thesis
    by (auto simp: search_and_download_audio_smart_def check_pause_def Let_def)
next
  case False
  have al: "attempt_loop ctl outcome base n i (Suc t) res = (r, t2) \<Longrightarrow> status res = ''failed'' \<Longrightarrow>
            t < t2 \<and> (status r = ''cancelled'') = is_cancelled ctl (t2 - 1)" for outcome base n i res
    using attempt_loop_cancelled[of res "Suc t" ctl outcome base n i r t2] False by auto
  from assms False show ?thesis
    unfolding search_and_download_audio_smart_def check_pause_def Let_def
    by (simp split: if_splits) (use al in \<open>force+\<close>)
qed

lemma track_result_cancelled:
  assumes "track_result ctl approved denv track t = (r, t2)" "0 < t" "\<not> is_cancelled ctl (t - 1)"
  shows "t \<le> t2 \<and> (status r = ''cancelled'') = is_cancelled ctl (t2 - 1)"
  using assms search_and_download_cancelled[of ctl denv track t r t2]
  by (auto simp: track_result_def split: if_splits)


lemma attempt_loop_metadata:
  "attempt_loop ctl outcome base n i t res = (r, t2) \<Longrightarrow> result_metadata r = result_metadata res"
proof (induction n arbitrary: i t res)
  case 0
  then show ?case by auto
next
  case (Suc n)
  from Suc.prems show ?case
    by (auto simp: Let_def cancelled_by_user_def split: if_splits attempt.splits fetch.splits
             dest!: Suc.IH)
qed

lemma search_and_download_metadata:
  "search_and_download_audio_smart ctl denv track t = (r, t2) \<Longrightarrow> result_metadata r = track"
  unfolding search_and_download_audio_smart_def Let_def
  by (auto simp: cancelled_by_user_def split: if_splits dest!: attempt_loop_metadata)

lemma track_result_metadata:
  "track_result ctl approved denv track t = (r, t2) \<Longrightarrow> result_metadata r = track"
  by (auto simp: track_result_def split: if_splits dest: search_and_download_metadata)

lemma after_track_log [simp]:
  "download_log (after_track now pname track res t st) = download_log st @ [res]"
  "cancelled_downloads (after_track now pname track res t st) = cancelled_downloads st"
  "tick (after_track now pname track res t st) = t"
  by (simp_all add: after_track_def split: prod.splits)

lemma count_result_log [simp]:
  "download_log (count_result res st) = download_log st"
  "tick (count_result res st) = tick st"
  "cancelled_downloads (count_result res st) =
     (if status res = ''cancelled'' then Suc (cancelled_downloads st) else cancelled_downloads st)"
  by (simp_all add: count_result_def)

lemma download_loop_log:
  "\<exists>news. download_log (download_loop ctl approved pname env i tracks st) = download_log st @ news \<and>
     length news \<le> length tracks \<and>
     map result_metadata news = take (length news) tracks \<and>
     (\<forall>j. Suc j < length news \<longrightarrow> status (news ! j) \<noteq> ''cancelled'') \<and>
     cancelled_downloads (download_loop ctl approved pname env i tracks st) =
       cancelled_downloads st + (if news \<noteq> [] \<and> status (last news) = ''cancelled'' then 1 else 0)"
proof (induction tracks arbitrary: i st)
  case Nil
  show ?case by simp
next
  case (Cons track rest)
  show ?case
  proof (cases "is_cancelled ctl (tick st) \<or> \<not> check_pause ctl (Suc (tick st))")
    case True
    then have "download_log (download_loop ctl approved pname env i (track # rest) st) = download_log st @ []"
      "cancelled_downloads (download_loop ctl approved pname env i (track # rest) st) = cancelled_downloads st"
      by auto
    then show ?thesis by (intro exI[of _ "[]"]) simp
  next
    case False
    obtain res t where tr: "track_result ctl approved (downloads env i) track (Suc (Suc (tick st))) = (res, t)"
      by fastforce
    let ?st1 = "count_result res (after_track (clock env i) pname track res t st)"
    have md: "result_metadata res = track" using tr by (rule track_result_metadata)
    show ?thesis
    proof (cases "status res = ''cancelled''")
      case True
      with False tr have "download_loop ctl approved pname env i (track # rest) st = ?st1" by simp
      with True md show ?thesis by (intro exI[of _ "[res]"]) simp
    next
      case nc: False
      with False tr have eq: "download_loop ctl approved pname env i (track # rest) st =
          download_loop ctl approved pname env (Suc i) rest ?st1" by simp
      from Cons.IH[of "Suc i" ?st1] obtain news where
        n: "download_log (download_loop ctl approved pname env (Suc i) rest ?st1) = download_log ?st1 @ news"
           "length news \<le> length rest"
           "map result_metadata news = take (length news) rest"
           "\<forall>j. Suc j < length news \<longrightarrow> status (news ! j) \<noteq> ''cancelled''"
           "cancelled_downloads (download_loop ctl approved pname env (Suc i) rest ?st1) =
              cancelled_downloads ?st1 + (if news \<noteq> [] \<and> status (last news) = ''cancelled'' then 1 else 0)"
        by blast
      have a: "\<forall>j. Suc j < length (res # news) \<longrightarrow> status ((res # news) ! j) \<noteq> ''cancelled''"
      proof (intro allI impI)
        fix j assume "Suc j < length (res # news)"
        then show "status ((res # news) ! j) \<noteq> ''cancelled''"
          using nc n(4) by (cases j) auto
      qed
      have b: "(if res # news \<noteq> [] \<and> status (last (res # news)) = ''cancelled'' then 1 else 0) =
               (if news \<noteq> [] \<and> status (last news) = ''cancelled'' then 1 else (0::nat))"
        using nc by auto
      show ?thesis
        apply (rule exI[of _ "res # news"])
        unfolding eq n(1) n(5) b
        using n(2) n(3) md a nc by simp
    qed
  qed
qed

lemma download_loop_in_flight:
  assumes "track_result ctl approved (downloads env i) track (Suc (Suc (tick st))) = (res, t)"
    and "\<not> is_cancelled ctl (Suc (tick st))"
    and "is_cancelled ctl (t - 1)"
  shows "status res = ''cancelled'' \<and>
         download_loop ctl approved pname env i (track # rest) st =
           count_result res (after_track (clock env i) pname track res t st)"
proof -
  have "\<not> is_cancelled ctl (tick st)" using assms(2) is_cancelled_mono[of ctl "tick st" "Suc (tick st)"] by auto
  moreover have c: "status res = ''cancelled''"
    using track_result_cancelled[OF assms(1)] assms(2,3) by simp
  ultimately show ?thesis using assms(1,2) by (simp add: check_pause_def)
qed

lemma process_log:
  assumes "process_single_playlist env ctl approved pname url w = (jr, w')" "result_error jr = None"
  shows "length (download_results w') \<le> tracks_count jr \<and>
         (\<forall>j. Suc j < length (download_results w') \<longrightarrow> status (download_results w' ! j) \<noteq> ''cancelled'') \<and>
         (0 < cancelled_count jr) =
           (download_results w' \<noteq> [] \<and> status (last (download_results w')) = ''cancelled'')"
proof -
  let ?items = "snd (capture_requests (events env) ([], []))"
  let ?t1 = "wait_for_capture ctl (capture_polls env) (Suc (reads w))"
  obtain tracks skipped where ex: "extract_enhanced_track_info (song_mgr w) ?items = (tracks, skipped)"
    by fastforce
  let ?init = "\<lparr>manager = song_mgr w, playlist_songs = [], successful = 0,
                failed_downloads = 0, skipped_downloads = 0, existing_reused = 0,
                cancelled_downloads = 0, download_log = [], tick = Suc ?t1\<rparr>"
  let ?fin = "download_loop ctl approved pname env 0 tracks ?init"
  from assms ex have r: "tracks_count jr = length tracks" "cancelled_count jr = cancelled_downloads ?fin"
    "download_results w' = download_log ?fin"
    by (auto simp: process_single_playlist_def Let_def error_result_def split: if_splits)
  from download_loop_log[where ctl=ctl and approved=approved and pname=pname and env=env
      and i=0 and tracks=tracks and st="?init"] obtain news where
    n: "download_log ?fin = news" "length news \<le> length tracks"
       "\<forall>j. Suc j < length news \<longrightarrow> status (news ! j) \<noteq> ''cancelled''"
       "cancelled_downloads ?fin = (if news \<noteq> [] \<and> status (last news) = ''cancelled'' then 1 else 0)"
    by auto
  show ?thesis unfolding r n(1) using n(2,3,4) by simp
qed

section \<open>The batch loop\<close>

lemma batch_loop_run:
  assumes "\<not> is_cancelled (batch_controller be) (Suc (reads (the_world s)))"
    and "job_status (batch_playlists (the_batch s) ! i) = ''pending''"
    and "\<not> (PAUSE_BETWEEN_PLAYLISTS \<and> i > current_playlist_index (the_batch s) \<and>
            lower (strip (prompt_input be i)) = ''skip'')"
    and "process_single_playlist (job_envs be i) (batch_controller be) (download_approval be)
           (job_name (batch_playlists (the_batch s) ! i)) (job_url (batch_playlists (the_batch s) ! i))
           ((the_world s)\<lparr>reads := Suc (Suc (reads (the_world s)))\<rparr>) = (res, w)"
    and "seen = (\<not> job_failed res \<and> cancelled_count res = 0 \<and> is_cancelled (batch_controller be) (reads w))"
    and "s1 = \<lparr>the_batch = record_outcome (clock (job_envs be i) 0) res seen (the_batch s),
               the_world = (if \<not> job_failed res \<and> cancelled_count res = 0
                            then w\<lparr>reads := Suc (reads w)\<rparr> else w),
               processed = processed s @ [i]\<rparr>"
  shows "batch_loop be (i # rest) s = (if job_cancelled res seen then s1 else batch_loop be rest s1)"
proof -
  have "\<not> is_cancelled (batch_controller be) (reads (the_world s))"
    using assms(1) by (auto simp: is_cancelled_def split: option.splits)
  then have e: "is_cancelled (batch_controller be) (reads (the_world s)) = False"
    "(job_status (batch_playlists (the_batch s) ! i) \<noteq> ''pending'') = False"
    "(\<not> check_pause (batch_controller be) (Suc (reads (the_world s)))) = False"
    "(PAUSE_BETWEEN_PLAYLISTS \<and> i > current_playlist_index (the_batch s) \<and>
        lower (strip (prompt_input be i)) = ''skip'') = False"
    using assms(1,2,3) by (simp_all add: check_pause_def)
  show ?thesis
    unfolding assms(5,6)
    by (simp only: batch_loop.simps Let_def e if_False assms(4) prod.case)
qed


declare batch_loop.simps(2) [simp del]





lemma batch_loop_cancelled_now:
  "is_cancelled (batch_controller be) (reads (the_world s)) \<Longrightarrow>
   the_batch (batch_loop be js s) = the_batch s \<and> processed (batch_loop be js s) = processed s"
  by (cases js) (simp_all add: batch_loop.simps Let_def)

text \<open>A job that is started and ends with the cancel flag set, or with a cancelled download.\<close>

lemma process_cancelled_count:
  assumes "process_single_playlist env ctl approved pname url w = (jr, w')" "0 < cancelled_count jr"
  shows "result_error jr = None"
  using assms
  by (auto simp: process_single_playlist_def Let_def error_result_def split: if_splits prod.splits)

lemma batch_loop_in_flight:
  assumes pend: "job_status (batch_playlists (the_batch s) ! i) = ''pending''"
    and nc: "\<not> is_cancelled (batch_controller be) (Suc (reads (the_world s)))"
    and nskip: "\<not> (PAUSE_BETWEEN_PLAYLISTS \<and> i > current_playlist_index (the_batch s) \<and>
            lower (strip (prompt_input be i)) = ''skip'')"
    and pr: "process_single_playlist (job_envs be i) (batch_controller be) (download_approval be)
           (job_name (batch_playlists (the_batch s) ! i)) (job_url (batch_playlists (the_batch s) ! i))
           ((the_world s)\<lparr>reads := Suc (Suc (reads (the_world s)))\<rparr>) = (res, w)"
    and seen: "seen = (\<not> job_failed res \<and> cancelled_count res = 0 \<and> is_cancelled (batch_controller be) (reads w))"
    and canc: "is_cancelled (batch_controller be) (reads w) \<or> 0 < cancelled_count res"
  shows "the_batch (batch_loop be (i # rest) s) =
           record_outcome (clock (job_envs be i) 0) res seen (the_batch s)"
    and "processed (batch_loop be (i # rest) s) = processed s @ [i]"
    and "job_failed res \<or> job_cancelled res seen"
proof -
  define s1 where "s1 = \<lparr>the_batch = record_outcome (clock (job_envs be i) 0) res seen (the_batch s),
               the_world = (if \<not> job_failed res \<and> cancelled_count res = 0
                            then w\<lparr>reads := Suc (reads w)\<rparr> else w),
               processed = processed s @ [i]\<rparr>"
  have eq: "batch_loop be (i # rest) s = (if job_cancelled res seen then s1 else batch_loop be rest s1)"
    by (rule batch_loop_run[OF nc pend nskip pr seen s1_def])
  have nf: "\<not> job_failed res" if "0 < cancelled_count res"
    using process_cancelled_count[OF pr that] by (simp add: job_failed_def)
  show c: "job_failed res \<or> job_cancelled res seen"
    using canc nf by (auto simp: job_cancelled_def seen)
  have fin: "the_batch (batch_loop be (i # rest) s) = the_batch s1 \<and>
             processed (batch_loop be (i # rest) s) = processed s1"
  proof (cases "job_cancelled res seen")
    case True
    with eq show ?thesis by simp
  next
    case False
    with c have f: "job_failed res" by simp
    with nf canc have "is_cancelled (batch_controller be) (reads w)" by auto
    with f have "is_cancelled (batch_controller be) (reads (the_world s1))" by (simp add: s1_def)
    then show ?thesis using batch_loop_cancelled_now[of be s1 rest] eq False by simp
  qed
  from fin show "the_batch (batch_loop be (i # rest) s) =
           record_outcome (clock (job_envs be i) 0) res seen (the_batch s)" by (simp add: s1_def)
  from fin show "processed (batch_loop be (i # rest) s) = processed s @ [i]" by (simp add: s1_def)
qed

lemma record_outcome_entry:
  assumes "i < length (batch_playlists b)" "job_failed res \<or> job_cancelled res seen"
  shows "(i = current_playlist_index b \<longrightarrow>
            job_status (batch_playlists (record_outcome now res seen b) ! i) = ''failed'' \<and>
            job_error (batch_playlists (record_outcome now res seen b) ! i) =
              (if job_failed res then result_error res else Some ''Cancelled by user'')) \<and>
         (i \<noteq> current_playlist_index b \<longrightarrow>
            batch_playlists (record_outcome now res seen b) ! i = batch_playlists b ! i)"
  using assms record_outcome_at_cursor[of b now res seen] record_outcome_other[of i b now res seen]
  by auto

text \<open>
  Claim C8, as the code has it. \<open>mark_playlist_completed\<close> knows two statuses, \<open>completed\<close>
  and \<open>failed\<close>. When a pending job is started and the cancel flag is set by the time
  \<open>process_single_playlist\<close> has returned, no later job is processed and the entry of the
  job does not get the status \<open>completed\<close>. When the job stands at the cursor, its entry
  gets the status \<open>failed\<close>: with the error \<open>Cancelled by user\<close>, or with the error the job
  itself returned (\<open>Batch process cancelled\<close> when the flag was seen during the capture).
\<close>

theorem cancellation_recorded_as_failure:
  assumes "i < length (batch_playlists (the_batch s))"
    and "job_status (batch_playlists (the_batch s) ! i) = ''pending''"
    and "\<not> is_cancelled (batch_controller be) (Suc (reads (the_world s)))"
    and "\<not> (PAUSE_BETWEEN_PLAYLISTS \<and> i > current_playlist_index (the_batch s) \<and>
            lower (strip (prompt_input be i)) = ''skip'')"
    and "process_single_playlist (job_envs be i) (batch_controller be) (download_approval be)
           (job_name (batch_playlists (the_batch s) ! i)) (job_url (batch_playlists (the_batch s) ! i))
           ((the_world s)\<lparr>reads := Suc (Suc (reads (the_world s)))\<rparr>) = (res, w)"
    and "is_cancelled (batch_controller be) (reads w)"
  shows "job_status (batch_playlists (the_batch (batch_loop be (i # rest) s)) ! i) \<noteq> ''completed'' \<and>
         (job_status (batch_playlists (the_batch (batch_loop be (i # rest) s)) ! i) = ''failed'' \<or>
          job_status (batch_playlists (the_batch (batch_loop be (i # rest) s)) ! i) = ''pending'') \<and>
         (i = current_playlist_index (the_batch s) \<longrightarrow>
            job_status (batch_playlists (the_batch (batch_loop be (i # rest) s)) ! i) = ''failed'' \<and>
            job_error (batch_playlists (the_batch (batch_loop be (i # rest) s)) ! i) =
              (if job_failed res then result_error res else Some ''Cancelled by user'')) \<and>
         processed (batch_loop be (i # rest) s) = processed s @ [i]"
proof -
  define seen where "seen = (\<not> job_failed res \<and> cancelled_count res = 0 \<and> is_cancelled (batch_controller be) (reads w))"
  have canc: "is_cancelled (batch_controller be) (reads w) \<or> 0 < cancelled_count res"
    using assms(6) by simp
  note l = batch_loop_in_flight[OF assms(2-5) seen_def canc]
  note e = record_outcome_entry[OF assms(1) l(3), where now="clock (job_envs be i) 0"]
  show ?thesis
  proof (cases "i = current_playlist_index (the_batch s)")
    case True
    with e l(1,2) show ?thesis by simp
  next
    case False
    with e l(1,2) assms(2) show ?thesis by simp
  qed
qed

theorem cancellation_recorded_as_failure_witness:
  "job_status (batch_playlists (the_batch (batch_loop (example_batch_env (Some 9)) [0]
     \<lparr>the_batch = \<lparr>batch_playlists = [pending_job ''P1''], current_playlist_index = 0\<rparr>,
      the_world = \<lparr>song_mgr = new_song_manager, files = empty_disk, reads = 0,
                   skipped_tracks_log = [], download_results = []\<rparr>, processed = []\<rparr>)) ! 0) = ''failed'' \<and>
   job_error (batch_playlists (the_batch (batch_loop (example_batch_env (Some 9)) [0]
     \<lparr>the_batch = \<lparr>batch_playlists = [pending_job ''P1''], current_playlist_index = 0\<rparr>,
      the_world = \<lparr>song_mgr = new_song_manager, files = empty_disk, reads = 0,
                   skipped_tracks_log = [], download_results = []\<rparr>, processed = []\<rparr>)) ! 0) =
     Some ''Cancelled by user''"
proof -
  let ?be = "example_batch_env (Some 9)"
  let ?s = "\<lparr>the_batch = \<lparr>batch_playlists = [pending_job ''P1''], current_playlist_index = 0\<rparr>,
      the_world = \<lparr>song_mgr = new_song_manager, files = empty_disk, reads = 0,
                   skipped_tracks_log = [], download_results = []\<rparr>, processed = []\<rparr>"
  let ?p = "process_single_playlist (example_env [item_a, item_b]) (Some 9) True ''P1'' ''url''
     \<lparr>song_mgr = new_song_manager, files = empty_disk, reads = 2, skipped_tracks_log = [],
      download_results = []\<rparr>"
  have h2: "0 < length (batch_playlists (the_batch ?s))" by simp
  have h3: "job_status (batch_playlists (the_batch ?s) ! 0) = ''pending''" by (simp add: pending_job_def)
  have h4: "\<not> is_cancelled (batch_controller ?be) (Suc (reads (the_world ?s)))"
    by (simp add: example_batch_env_def is_cancelled_def)
  have hs: "\<not> (PAUSE_BETWEEN_PLAYLISTS \<and> 0 > current_playlist_index (the_batch ?s) \<and>
            lower (strip (prompt_input ?be 0)) = ''skip'')" by simp
  have h5: "process_single_playlist (job_envs ?be 0) (batch_controller ?be) (download_approval ?be)
           (job_name (batch_playlists (the_batch ?s) ! 0)) (job_url (batch_playlists (the_batch ?s) ! 0))
           ((the_world ?s)\<lparr>reads := Suc (Suc (reads (the_world ?s)))\<rparr>) = (fst ?p, snd ?p)"
    by (simp add: example_batch_env_def pending_job_def numeral_2_eq_2)
  have h6: "is_cancelled (batch_controller ?be) (reads (snd ?p))"
    using process_cancelled' by (simp add: example_batch_env_def is_cancelled_def)
  have nf: "\<not> job_failed (fst ?p)" using process_cancelled' by (simp add: job_failed_def)
  from cancellation_recorded_as_failure[OF h2 h3 h4 hs h5 h6, of "[]"] nf show ?thesis by simp
qed

text \<open>
  The claim as stated fails: the status recorded for a job cancelled during a download is
  \<open>failed\<close>.
\<close>

theorem cancelled_job_status_is_failed:
  "job_status (batch_playlists (the_batch (run_batch_processing_mode (example_batch_env (Some 9))
      \<lparr>batch_playlists = [pending_job ''P1''], current_playlist_index = 0\<rparr> empty_disk)) ! 0) =
   ''failed''"
  unfolding batch_cancelled by (simp add: pending_job_def)


lemma run_batch_start:
  "run_batch_processing_mode be b d =
     (let s = \<lparr>the_batch = b,
               the_world = \<lparr>song_mgr = load_existing_database d, files = d, reads = 0,
                            skipped_tracks_log = [], download_results = []\<rparr>,
               processed = []\<rparr>
      in if filter (\<lambda>p. job_status p = ''pending'') (batch_playlists b) = [] then s
         else batch_loop be [current_playlist_index b ..< length (batch_playlists b)] s)"
  by (auto simp: run_batch_processing_mode_def Let_def)




text \<open>
  \<open>mark_playlist_completed\<close> writes to the entry at the cursor, not to the entry of the job
  that was processed. With a completed job at the cursor and a pending job after it, the
  pending job is processed, the completed job's entry is rewritten, and the pending job
  stays \<open>pending\<close>.
\<close>

lemma stale_cursor_marks_wrong_entry:
  "processed (run_batch_processing_mode (example_batch_env None)
     \<lparr>batch_playlists = [(pending_job ''P0'')\<lparr>job_status := ''completed''\<rparr>, pending_job ''P1''],
      current_playlist_index = 0\<rparr> empty_disk) = [1] \<and>
   job_status (batch_playlists (the_batch (run_batch_processing_mode (example_batch_env None)
     \<lparr>batch_playlists = [(pending_job ''P0'')\<lparr>job_status := ''completed''\<rparr>, pending_job ''P1''],
      current_playlist_index = 0\<rparr> empty_disk)) ! 1) = ''pending'' \<and>
   processed_at (batch_playlists (the_batch (run_batch_processing_mode (example_batch_env None)
     \<lparr>batch_playlists = [(pending_job ''P0'')\<lparr>job_status := ''completed''\<rparr>, pending_job ''P1''],
      current_playlist_index = 0\<rparr> empty_disk)) ! 0) = Some ''now''"
proof -
  let ?b = "\<lparr>batch_playlists = [(pending_job ''P0'')\<lparr>job_status := ''completed''\<rparr>, pending_job ''P1''],
      current_playlist_index = 0\<rparr>"
  let ?be = "example_batch_env None"
  let ?s = "\<lparr>the_batch = ?b,
               the_world = \<lparr>song_mgr = load_existing_database empty_disk, files = empty_disk, reads = Suc 0,
                            skipped_tracks_log = [], download_results = []\<rparr>,
               processed = []\<rparr>"
  have R: "run_batch_processing_mode ?be ?b empty_disk = batch_loop ?be [1] ?s"
    by (simp add: run_batch_start pending_job_def upt_rec batch_loop.simps Let_def
        example_batch_env_def is_cancelled_def)
  obtain res w where pr: "process_single_playlist (job_envs ?be 1) (batch_controller ?be) (download_approval ?be)
           (job_name (batch_playlists (the_batch ?s) ! 1)) (job_url (batch_playlists (the_batch ?s) ! 1))
           ((the_world ?s)\<lparr>reads := Suc (Suc (reads (the_world ?s)))\<rparr>) = (res, w)" by fastforce
  define seen where "seen = (\<not> job_failed res \<and> cancelled_count res = 0 \<and> is_cancelled (batch_controller ?be) (reads w))"
  define s1 where "s1 = \<lparr>the_batch = record_outcome (clock (job_envs ?be 1) 0) res seen (the_batch ?s),
               the_world = (if \<not> job_failed res \<and> cancelled_count res = 0
                            then w\<lparr>reads := Suc (reads w)\<rparr> else w),
               processed = processed ?s @ [1]\<rparr>"
  have a: "\<not> is_cancelled (batch_controller ?be) (Suc (reads (the_world ?s)))"
    "job_status (batch_playlists (the_batch ?s) ! 1) = ''pending''"
    "\<not> (PAUSE_BETWEEN_PLAYLISTS \<and> 1 > current_playlist_index (the_batch ?s) \<and>
            lower (strip (prompt_input ?be 1)) = ''skip'')"
    by (simp_all add: pending_job_def example_batch_env_def is_cancelled_def strip_def strip_chars_def lower_def)
  have "batch_loop ?be [1] ?s = s1"
    using batch_loop_run[OF a pr seen_def s1_def, of "[]"] by simp
  moreover have "batch_playlists (the_batch s1) ! 1 = pending_job ''P1''"
    by (simp add: s1_def record_outcome_other)
  moreover have "processed_at (batch_playlists (the_batch s1) ! 0) = Some ''now''"
    by (simp add: s1_def record_outcome_def mark_playlist_completed_def example_batch_env_def example_env_fields)
  ultimately show ?thesis unfolding R by (simp add: s1_def pending_job_def)
qed

text \<open>
  Claim C7, as the code has it. When the cancel flag is first seen by a check point inside
  the download of a track (the two checks at the top of its iteration did not see it), that
  track's result has status \<open>cancelled\<close>, it is the last entry of the download log and the
  loop ends there, whatever tracks remain. In every job that returns no error the results
  are those of a prefix of the tracks, only the last of them can be \<open>cancelled\<close>, and
  \<open>cancelled_count\<close> is positive exactly when it is. A pending job of a
  batch that is started and returns a positive \<open>cancelled_count\<close> is the last job the batch
  processes, and its entry does not get the status \<open>completed\<close>.
\<close>

theorem cancel_mid_download:
  "(track_result ctl approved (downloads env i) track (Suc (Suc (tick st))) = (res, t) \<and>
    \<not> is_cancelled ctl (Suc (tick st)) \<and> is_cancelled ctl (t - 1) \<longrightarrow>
      status res = ''cancelled'' \<and>
      download_log (download_loop ctl approved pname env i (track # rest) st) = download_log st @ [res] \<and>
      cancelled_downloads (download_loop ctl approved pname env i (track # rest) st) =
        Suc (cancelled_downloads st)) \<and>
   (process_single_playlist env ctl approved pname url w = (jr, w') \<and> result_error jr = None \<longrightarrow>
      length (download_results w') \<le> tracks_count jr \<and>
      (\<forall>j. Suc j < length (download_results w') \<longrightarrow>
           status (download_results w' ! j) \<noteq> ''cancelled'') \<and>
      (0 < cancelled_count jr) =
        (download_results w' \<noteq> [] \<and> status (last (download_results w')) = ''cancelled'')) \<and>
   (k < length (batch_playlists (the_batch s)) \<and>
    job_status (batch_playlists (the_batch s) ! k) = ''pending'' \<and>
    \<not> is_cancelled (batch_controller be) (Suc (reads (the_world s))) \<and>
    \<not> (PAUSE_BETWEEN_PLAYLISTS \<and> k > current_playlist_index (the_batch s) \<and>
       lower (strip (prompt_input be k)) = ''skip'') \<and>
    process_single_playlist (job_envs be k) (batch_controller be) (download_approval be)
      (job_name (batch_playlists (the_batch s) ! k)) (job_url (batch_playlists (the_batch s) ! k))
      ((the_world s)\<lparr>reads := Suc (Suc (reads (the_world s)))\<rparr>) = (kr, kw) \<and>
    0 < cancelled_count kr \<longrightarrow>
      job_status (batch_playlists (the_batch (batch_loop be (k # later) s)) ! k) \<noteq> ''completed'' \<and>
      processed (batch_loop be (k # later) s) = processed s @ [k])"
proof (intro conjI impI)
  assume a: "track_result ctl approved (downloads env i) track (Suc (Suc (tick st))) = (res, t) \<and>
    \<not> is_cancelled ctl (Suc (tick st)) \<and> is_cancelled ctl (t - 1)"
  then have f: "status res = ''cancelled'' \<and>
         download_loop ctl approved pname env i (track # rest) st =
           count_result res (after_track (clock env i) pname track res t st)"
    using download_loop_in_flight by blast
  then show "status res = ''cancelled''" by simp
  from f show "download_log (download_loop ctl approved pname env i (track # rest) st) = download_log st @ [res]"
    by simp
  from f show "cancelled_downloads (download_loop ctl approved pname env i (track # rest) st) =
        Suc (cancelled_downloads st)" by simp
next
  assume a: "process_single_playlist env ctl approved pname url w = (jr, w') \<and> result_error jr = None"
  then have p: "length (download_results w') \<le> tracks_count jr \<and>
         (\<forall>j. Suc j < length (download_results w') \<longrightarrow> status (download_results w' ! j) \<noteq> ''cancelled'') \<and>
         (0 < cancelled_count jr) =
           (download_results w' \<noteq> [] \<and> status (last (download_results w')) = ''cancelled'')"
    using process_log by blast
  from p show "length (download_results w') \<le> tracks_count jr" by simp
  from p show "\<forall>j. Suc j < length (download_results w') \<longrightarrow> status (download_results w' ! j) \<noteq> ''cancelled''"
    by simp
  from p show "(0 < cancelled_count jr) =
           (download_results w' \<noteq> [] \<and> status (last (download_results w')) = ''cancelled'')" by simp
next
  assume a: "k < length (batch_playlists (the_batch s)) \<and>
    job_status (batch_playlists (the_batch s) ! k) = ''pending'' \<and>
    \<not> is_cancelled (batch_controller be) (Suc (reads (the_world s))) \<and>
    \<not> (PAUSE_BETWEEN_PLAYLISTS \<and> k > current_playlist_index (the_batch s) \<and>
       lower (strip (prompt_input be k)) = ''skip'') \<and>
    process_single_playlist (job_envs be k) (batch_controller be) (download_approval be)
      (job_name (batch_playlists (the_batch s) ! k)) (job_url (batch_playlists (the_batch s) ! k))
      ((the_world s)\<lparr>reads := Suc (Suc (reads (the_world s)))\<rparr>) = (kr, kw) \<and>
    0 < cancelled_count kr"
  define seen where "seen = (\<not> job_failed kr \<and> cancelled_count kr = 0 \<and>
                             is_cancelled (batch_controller be) (reads kw))"
  from a have h: "k < length (batch_playlists (the_batch s))"
    "job_status (batch_playlists (the_batch s) ! k) = ''pending''"
    "\<not> is_cancelled (batch_controller be) (Suc (reads (the_world s)))"
    "\<not> (PAUSE_BETWEEN_PLAYLISTS \<and> k > current_playlist_index (the_batch s) \<and>
       lower (strip (prompt_input be k)) = ''skip'')"
    "process_single_playlist (job_envs be k) (batch_controller be) (download_approval be)
      (job_name (batch_playlists (the_batch s) ! k)) (job_url (batch_playlists (the_batch s) ! k))
      ((the_world s)\<lparr>reads := Suc (Suc (reads (the_world s)))\<rparr>) = (kr, kw)"
    "is_cancelled (batch_controller be) (reads kw) \<or> 0 < cancelled_count kr"
    by simp_all
  note l = batch_loop_in_flight[OF h(2-5) seen_def h(6)]
  note e = record_outcome_entry[OF h(1) l(3), where now="clock (job_envs be k) 0"]
  show "job_status (batch_playlists (the_batch (batch_loop be (k # later) s)) ! k) \<noteq> ''completed''"
  proof (cases "k = current_playlist_index (the_batch s)")
    case True
    with e l(1) show ?thesis by simp
  next
    case False
    with e l(1) h(2) show ?thesis by simp
  qed
  show "processed (batch_loop be (k # later) s) = processed s @ [k]" by (rule l(2))
qed

theorem cancel_mid_download_witness:
  "status (fst (track_result (Some 9) True (downloads (example_env [item_a, item_b]) 0)
             (track_a\<lparr>song_id := ''song_d4bb73c2c32a''\<rparr>) 7)) = ''cancelled'' \<and>
   map status (download_log (download_loop (Some 9) True ''P1'' (example_env [item_a, item_b]) 0
      [track_a\<lparr>song_id := ''song_d4bb73c2c32a''\<rparr>, track_b\<lparr>song_id := ''song_f8228e343e33''\<rparr>]
      \<lparr>manager = new_song_manager, playlist_songs = [], successful = 0, failed_downloads = 0,
       skipped_downloads = 0, existing_reused = 0, cancelled_downloads = 0, download_log = [],
       tick = 5\<rparr>)) = [''cancelled''] \<and>
   length (download_results (snd (process_single_playlist (example_env [item_a, item_b]) (Some 9) True
      ''P1'' ''url'' \<lparr>song_mgr = new_song_manager, files = empty_disk, reads = 2,
      skipped_tracks_log = [], download_results = []\<rparr>))) = 1 \<and>
   job_status (batch_playlists (the_batch (batch_loop (example_batch_env (Some 9)) [0]
     \<lparr>the_batch = \<lparr>batch_playlists = [pending_job ''P1''], current_playlist_index = 0\<rparr>,
      the_world = \<lparr>song_mgr = new_song_manager, files = empty_disk, reads = 0,
                   skipped_tracks_log = [], download_results = []\<rparr>, processed = []\<rparr>)) ! 0) \<noteq>
     ''completed'' \<and>
   processed (batch_loop (example_batch_env (Some 9)) [0]
     \<lparr>the_batch = \<lparr>batch_playlists = [pending_job ''P1''], current_playlist_index = 0\<rparr>,
      the_world = \<lparr>song_mgr = new_song_manager, files = empty_disk, reads = 0,
                   skipped_tracks_log = [], download_results = []\<rparr>, processed = []\<rparr>) = [0]"
proof -
  let ?env = "example_env [item_a, item_b]"
  let ?ta = "track_a\<lparr>song_id := ''song_d4bb73c2c32a''\<rparr>"
  let ?tb = "track_b\<lparr>song_id := ''song_f8228e343e33''\<rparr>"
  let ?init = "\<lparr>manager = new_song_manager, playlist_songs = [], successful = 0, failed_downloads = 0,
       skipped_downloads = 0, existing_reused = 0, cancelled_downloads = 0, download_log = [],
       tick = 5\<rparr>"
  let ?w = "\<lparr>song_mgr = new_song_manager, files = empty_disk, reads = 2,
      skipped_tracks_log = [], download_results = []\<rparr>"
  let ?p = "process_single_playlist ?env (Some 9) True ''P1'' ''url'' ?w"
  let ?be = "example_batch_env (Some 9)"
  let ?s = "\<lparr>the_batch = \<lparr>batch_playlists = [pending_job ''P1''], current_playlist_index = 0\<rparr>,
      the_world = \<lparr>song_mgr = new_song_manager, files = empty_disk, reads = 0,
                   skipped_tracks_log = [], download_results = []\<rparr>, processed = []\<rparr>"
  let ?r = "track_result (Some 9) True (downloads ?env 0) ?ta 7"
  have tr: "track_result (Some 9) True (downloads ?env 0) ?ta (Suc (Suc (tick ?init))) = (fst ?r, 10)"
    by (simp add: track_result_def fields_a example_env_fields download_a_cancelled
        numeral_eq_Suc[symmetric] flip: numeral_eq_Suc)
  have h1: "\<not> is_cancelled (Some 9) (Suc (tick ?init))" by (simp add: is_cancelled_def)
  have h2: "is_cancelled (Some 9) (10 - 1)" by (simp add: is_cancelled_def)
  have h3: "?p = (fst ?p, snd ?p)" by simp
  have h4: "result_error (fst ?p) = None" "0 < cancelled_count (fst ?p)"
    "map status (download_results (snd ?p)) = [''cancelled'']"
    using process_cancelled' by simp_all
  have b1: "0 < length (batch_playlists (the_batch ?s))" by simp
  have b2: "job_status (batch_playlists (the_batch ?s) ! 0) = ''pending''" by (simp add: pending_job_def)
  have b3: "\<not> is_cancelled (batch_controller ?be) (Suc (reads (the_world ?s)))"
    by (simp add: example_batch_env_def is_cancelled_def)
  have b4: "\<not> (PAUSE_BETWEEN_PLAYLISTS \<and> 0 > current_playlist_index (the_batch ?s) \<and>
            lower (strip (prompt_input ?be 0)) = ''skip'')" by simp
  have b5: "process_single_playlist (job_envs ?be 0) (batch_controller ?be) (download_approval ?be)
           (job_name (batch_playlists (the_batch ?s) ! 0)) (job_url (batch_playlists (the_batch ?s) ! 0))
           ((the_world ?s)\<lparr>reads := Suc (Suc (reads (the_world ?s)))\<rparr>) = (fst ?p, snd ?p)"
    by (simp add: example_batch_env_def pending_job_def numeral_2_eq_2)
  note t = cancel_mid_download[where ctl="Some 9" and approved=True and env="?env" and i=0
      and track="?ta" and st="?init" and res="fst ?r" and t=10 and pname="''P1''" and rest="[?tb]"
      and url="''url''" and w="?w" and jr="fst ?p" and w'="snd ?p" and k=0 and s="?s" and be="?be"
      and kr="fst ?p" and kw="snd ?p" and later="[]"]
  have a: "status (fst ?r) = ''cancelled''" using t tr h1 h2 by blast
  have b: "download_log (download_loop (Some 9) True ''P1'' ?env 0 [?ta, ?tb] ?init) = [fst ?r]"
    using t tr h1 h2 by simp
  have c: "length (download_results (snd ?p)) = 1" using h4(3) by (metis length_map length_Cons list.size(3) One_nat_def)
  have d: "job_status (batch_playlists (the_batch (batch_loop ?be [0] ?s)) ! 0) \<noteq> ''completed'' \<and>
           processed (batch_loop ?be [0] ?s) = processed ?s @ [0]"
    using t b1 b2 b3 b4 b5 h4(2) by blast
  show ?thesis using a b c d by simp
qed

text \<open>
  The claim as stated fails: in a job of two tracks cancelled during the first download,
  the log holds one result, and the second track has none.
\<close>

theorem later_items_get_no_result:
  "job_tracks_count (batch_playlists (the_batch (run_batch_processing_mode (example_batch_env (Some 9))
      \<lparr>batch_playlists = [pending_job ''P1''], current_playlist_index = 0\<rparr> empty_disk)) ! 0) = 2 \<and>
   map status (download_results (the_world (run_batch_processing_mode (example_batch_env (Some 9))
      \<lparr>batch_playlists = [pending_job ''P1''], current_playlist_index = 0\<rparr> empty_disk))) =
     [''cancelled'']"
  by (simp add: batch_cancelled batch_cancelled_log)

section \<open>The validation gate\<close>

lemma extract_item_empty_name:
  assumes "safe_get typename ''Unknown'' = ''TrackResponseWrapper''"
    and "track_name (preliminary_track_info td) = []"
  shows "extract_item mgr (ItemV2 typename td) =
           (None, [log_skipped_track (preliminary_track_info td) ''Track name is empty or too short''])"
proof -
  have "strip [] = []" by (simp add: strip_def strip_chars_def)
  then have "validate_track_data (preliminary_track_info td) = (False, ''Track name is empty or too short'')"
    using assms(2) by (simp add: validate_track_data_def Let_def)
  then show ?thesis using assms(1) by (simp add: extract_item_def Let_def SKIP_INVALID_TRACKS_def)
qed

lemma extract_append:
  "extract_enhanced_track_info mgr (xs @ ys) =
     (fst (extract_enhanced_track_info mgr xs) @ fst (extract_enhanced_track_info mgr ys),
      snd (extract_enhanced_track_info mgr xs) @ snd (extract_enhanced_track_info mgr ys))"
  by (simp add: extract_enhanced_track_info_def List.map_filter_def)

lemma extract_nil: "extract_enhanced_track_info mgr [] = ([], [])"
  by (simp add: extract_enhanced_track_info_def List.map_filter_def)

lemma extract_cons:
  "extract_enhanced_track_info mgr (x # xs) =
     ((case fst (extract_item mgr x) of None \<Rightarrow> [] | Some t \<Rightarrow> [t]) @ fst (extract_enhanced_track_info mgr xs),
      snd (extract_item mgr x) @ snd (extract_enhanced_track_info mgr xs))"
  by (auto simp: extract_enhanced_track_info_def List.map_filter_def)

text \<open>
  Claim C9. A raw item of type \<open>TrackResponseWrapper\<close> whose extracted track name is empty
  is rejected whatever the catalog holds: it yields no track, and one entry of the skip log
  with the reason \<open>Track name is empty or too short\<close>, in its place among the entries of
  the other items. The tracks extracted from a stream are those extracted from the stream
  without the item, so the song manager and the three files after the job are what they
  would be had the item not been captured: it produces no song and enters no playlist.
\<close>

theorem empty_name_rejected:
  assumes "safe_get typename ''Unknown'' = ''TrackResponseWrapper''"
    and "track_name (preliminary_track_info td) = []"
    and "snd (capture_requests (events env) ([], [])) = xs @ ItemV2 typename td # ys"
    and "snd (capture_requests evs ([], [])) = xs @ ys"
  shows "fst (extract_enhanced_track_info mgr (xs @ ItemV2 typename td # ys)) =
           fst (extract_enhanced_track_info mgr (xs @ ys)) \<and>
         snd (extract_enhanced_track_info mgr (xs @ ItemV2 typename td # ys)) =
           snd (extract_enhanced_track_info mgr xs) @
           [\<lparr>reason = ''Track name is empty or too short'', logged_track_name = [],
             logged_artists = artists_string (preliminary_track_info td),
             logged_album = album_name (preliminary_track_info td),
             logged_uri = track_uri (preliminary_track_info td)\<rparr>] @
           snd (extract_enhanced_track_info mgr ys) \<and>
         song_mgr (snd (process_single_playlist env ctl approved pname url w)) =
           song_mgr (snd (process_single_playlist (env\<lparr>events := evs\<rparr>) ctl approved pname url w)) \<and>
         files (snd (process_single_playlist env ctl approved pname url w)) =
           files (snd (process_single_playlist (env\<lparr>events := evs\<rparr>) ctl approved pname url w))"
proof -
  let ?it = "ItemV2 typename td"
  have e: "extract_item mgr ?it =
           (None, [log_skipped_track (preliminary_track_info td) ''Track name is empty or too short''])" for mgr
    using assms(1,2) by (rule extract_item_empty_name)
  have t: "fst (extract_enhanced_track_info mgr (xs @ ?it # ys)) =
           fst (extract_enhanced_track_info mgr (xs @ ys))" for mgr
    by (simp add: extract_append extract_cons e)
  have l: "snd (extract_enhanced_track_info mgr (xs @ ?it # ys)) =
           snd (extract_enhanced_track_info mgr xs) @
           [log_skipped_track (preliminary_track_info td) ''Track name is empty or too short''] @
           snd (extract_enhanced_track_info mgr ys)"
    by (simp add: extract_append extract_cons e)
  have dl: "download_loop ctl approved pname (env\<lparr>events := evs\<rparr>) i tracks st =
            download_loop ctl approved pname env i tracks st" for i tracks st
    by (induction tracks arbitrary: i st) (simp_all split: prod.splits)
  have p: "song_mgr (snd (process_single_playlist env ctl approved pname url w)) =
           song_mgr (snd (process_single_playlist (env\<lparr>events := evs\<rparr>) ctl approved pname url w)) \<and>
         files (snd (process_single_playlist env ctl approved pname url w)) =
           files (snd (process_single_playlist (env\<lparr>events := evs\<rparr>) ctl approved pname url w))"
  proof (cases "xs @ ys = []")
    case True
    have one: "fst (extract_enhanced_track_info (song_mgr w) [?it]) = []"
      by (simp add: extract_enhanced_track_info_def List.map_filter_def e)
    from True have nil: "xs = []" "ys = []" by simp_all
    show ?thesis
      unfolding process_single_playlist_def Let_def using assms(3,4)
      by (simp add: split_beta nil one)
  next
    case False
    then have ne: "(xs = [] \<and> ys = []) = False" by simp
    show ?thesis
      unfolding process_single_playlist_def Let_def
      using t[of "song_mgr w"] assms(3,4)
      by (simp add: dl split_beta ne)
  qed
  show ?thesis using t l p assms(2) by (simp add: log_skipped_track_def)
qed


theorem empty_name_rejected_witness:
  "fst (extract_enhanced_track_info new_song_manager [item_a, item_blank]) =
     fst (extract_enhanced_track_info new_song_manager [item_a]) \<and>
   snd (extract_enhanced_track_info new_song_manager [item_a, item_blank]) =
     [\<lparr>reason = ''Track name is empty or too short'', logged_track_name = [],
       logged_artists = ''x'', logged_album = ''Unknown Album'', logged_uri = ''spotify:track:2''\<rparr>] \<and>
   files (snd (process_single_playlist (example_env [item_a, item_blank]) None True ''P1'' ''url''
      \<lparr>song_mgr = new_song_manager, files = empty_disk, reads = 0, skipped_tracks_log = [],
       download_results = []\<rparr>)) =
   files (snd (process_single_playlist (example_env [item_a]) None True ''P1'' ''url''
      \<lparr>song_mgr = new_song_manager, files = empty_disk, reads = 0, skipped_tracks_log = [],
       download_results = []\<rparr>))"
proof -
  let ?td = "\<lparr>name = Some ''  '', uri = Some ''spotify:track:2'',
      artist_items = [\<lparr>profile_name = Some ''x'', artist_uri = Some ''spotify:artist:9''\<rparr>],
      album_of_track_name = None, album_of_track_uri = None\<rparr>"
  have h1: "safe_get (Some ''TrackResponseWrapper'') ''Unknown'' = ''TrackResponseWrapper''"
    by (rule typename_track)
  have p: "preliminary_track_info ?td =
     \<lparr>track_name = [], track_uri = ''spotify:track:2'', artists = [''x''],
      artist_uris = [''spotify:artist:9''], artists_string = ''x'', album_name = ''Unknown Album'',
      album_uri = [], song_id = [], skip_download = False, existing_song_found = False\<rparr>"
    by code_simp
  have h2: "track_name (preliminary_track_info ?td) = []" by (simp add: p)
  let ?it = "ItemV2 (Some ''TrackResponseWrapper'') ?td"
  have h3: "snd (capture_requests (events (example_env [item_a, ?it])) ([], [])) = [item_a] @ ?it # []"
    by (simp add: capture_example)
  have h4: "snd (capture_requests (events (example_env [item_a])) ([], [])) = [item_a] @ []"
    by (simp add: capture_example)
  have ev: "(example_env [item_a, ?it])\<lparr>events := events (example_env [item_a])\<rparr> = example_env [item_a]"
    by (simp add: example_env_def)
  have e: "snd (extract_enhanced_track_info new_song_manager [item_a]) = []"
    by (simp add: extract_cons extract_a_new extract_enhanced_track_info_def List.map_filter_def)
  note t = empty_name_rejected[OF h1 h2 h3 h4, of new_song_manager None True "''P1''" "''url''"
      "\<lparr>song_mgr = new_song_manager, files = empty_disk, reads = 0, skipped_tracks_log = [],
       download_results = []\<rparr>", unfolded ev append.simps p]
  show ?thesis
    unfolding item_blank_def using t by (simp add: e extract_nil)
qed

section \<open>The song manager\<close>

lemma register_song_songs [simp]:
  "existing_songs (register_song sid md mgr) = existing_songs mgr"
  by (simp add: register_song_def Let_def)

lemma register_song_uri:
  "map_of (uri_to_song_id (register_song sid md mgr)) =
     (if track_uri md \<noteq> [] then (map_of (uri_to_song_id mgr))(track_uri md \<mapsto> sid)
      else map_of (uri_to_song_id mgr))"
  by (auto simp: register_song_def Let_def update_conv')

lemma register_song_key:
  "map_of (name_artist_to_song_id (register_song sid md mgr)) =
     (case name_artist_key md of
        Some k \<Rightarrow> (map_of (name_artist_to_song_id mgr))(k \<mapsto> sid)
      | None \<Rightarrow> map_of (name_artist_to_song_id mgr))"
  by (auto simp: register_song_def name_artist_key_def Let_def update_conv')

lemma find_existing_song_eq:
  "find_existing_song mgr info =
     (case (case (if track_uri info \<noteq> [] then map_of (uri_to_song_id mgr) (track_uri info) else None) of
              Some sid \<Rightarrow> Some sid
            | None \<Rightarrow> (case name_artist_key info of
                          Some k \<Rightarrow> map_of (name_artist_to_song_id mgr) k | None \<Rightarrow> None)) of
        Some sid \<Rightarrow> (case map_of (existing_songs mgr) sid of
                       Some found \<Rightarrow> Inr (Some (sid, found)) | None \<Rightarrow> Inl sid)
      | None \<Rightarrow> Inr None)"
  by (auto simp: find_existing_song_def name_artist_key_def Let_def split: option.splits)

lemma generate_song_id_nonempty [simp]: "generate_song_id n a \<noteq> []"
  by (simp add: generate_song_id_def Let_def)

lemma extract_item_valid:
  assumes "valid_item item" "resolve_track mgr (item_record item) = Inr track"
  shows "extract_item mgr item = (Some track, [])"
  using assms
  by (cases item) (simp_all add: valid_item_def item_record_def extract_item_def Let_def)

lemma resolve_track_found:
  assumes "find_existing_song mgr info = Inr (Some (sid, found))" "sid \<noteq> []"
  shows "resolve_track mgr info =
           Inr (info\<lparr>song_id := sid, skip_download := True, existing_song_found := True\<rparr>)"
  using assms by (simp add: resolve_track_def ENABLE_SMART_DEDUPLICATION_def Let_def)

lemma add_existing:
  assumes "map_of (existing_songs mgr) sid = Some found"
  shows "add_song_to_playlist now pname sid track res (mgr, ps) =
           ((if pname \<in> set (playlists found) then mgr
             else mgr\<lparr>existing_songs :=
                        AList.update sid (found\<lparr>playlists := playlists found @ [pname],
                                                 last_updated := now\<rparr>) (existing_songs mgr)\<rparr>),
            if sid \<in> set ps then ps else ps @ [sid])"
  using assms by (auto simp: add_song_to_playlist_def Let_def)

lemma add_new:
  assumes "map_of (existing_songs mgr) sid = None"
  shows "add_song_to_playlist now pname sid track res (mgr, ps) =
           (register_song sid track
              (mgr\<lparr>existing_songs := AList.update sid
                 \<lparr>info_song_id = sid,
                  info_filename = path_name (get_consolidated_song_path sid ''.mp3''),
                  original_filename = filename res,
                  file_path = path_str (get_consolidated_song_path sid ''.mp3''),
                  metadata = track, playlists = [pname], added_at = now, last_updated = now,
                  song_download_info =
                    \<lparr>info_video_title = video_title res, info_search_query = search_query res,
                     download_status = status res, downloaded_at = now\<rparr>\<rparr>
                 (existing_songs mgr)\<rparr>),
            if sid \<in> set ps then ps else ps @ [sid])"
  using assms by (auto simp: add_song_to_playlist_def Let_def)

lemma catalog_ok_new: "catalog_ok new_song_manager"
  by (simp add: catalog_ok_def new_song_manager_def)

lemma keys_update: "fst ` set (AList.update k v al) = insert k (fst ` set al)"
  by (induction al) auto

lemma catalog_ok_add:
  assumes "catalog_ok mgr"
  shows "catalog_ok (fst (add_song_to_playlist now pname sid track res (mgr, ps)))"
proof (cases "map_of (existing_songs mgr) sid")
  case None
  show ?thesis
    unfolding add_new[OF None] using assms
    by (auto simp: catalog_ok_def register_song_uri register_song_key keys_update
             split: option.splits if_splits)
next
  case (Some found)
  show ?thesis
    unfolding add_existing[OF Some] using assms
    by (auto simp: catalog_ok_def keys_update)
qed

lemma catalog_ok_load_song:
  assumes "catalog_ok mgr"
  shows "catalog_ok (load_song entry mgr)"
proof -
  obtain sid info where e: "entry = (sid, info)" by (cases entry)
  show ?thesis
    using assms unfolding e
    by (auto simp: load_song_def catalog_ok_def register_song_uri register_song_key keys_update
             split: option.splits if_splits)
qed

lemma catalog_ok_fold_load: "catalog_ok mgr \<Longrightarrow> catalog_ok (fold load_song entries mgr)"
  by (induction entries arbitrary: mgr) (simp_all add: catalog_ok_load_song)

lemma catalog_ok_load: "catalog_ok (load_existing_database d)"
  unfolding load_existing_database_def by (rule catalog_ok_fold_load[OF catalog_ok_new])

lemma upserts_Nil [simp]: "upserts [] mgr = mgr"
  by (simp add: upserts_def)

lemma upserts_Cons:
  "upserts ((now, pname, sid, track, res) # ups) mgr =
     upserts ups (fst (add_song_to_playlist now pname sid track res (mgr, [])))"
  by (simp add: upserts_def)

lemma add_song_manager_any_list:
  "fst (add_song_to_playlist now pname sid track res (mgr, ps)) =
   fst (add_song_to_playlist now pname sid track res (mgr, []))"
  by (simp add: add_song_to_playlist_def Let_def)

lemma catalog_ok_upserts: "catalog_ok mgr \<Longrightarrow> catalog_ok (upserts ups mgr)"
proof (induction ups arbitrary: mgr)
  case Nil
  then show ?case by simp
next
  case (Cons up ups)
  obtain now pname sid track res where up: "up = (now, pname, sid, track, res)"
    by (cases up) auto
  show ?case unfolding up upserts_Cons by (rule Cons.IH[OF catalog_ok_add[OF Cons.prems]])
qed

lemma extract_item_by_uri:
  assumes "map_of (uri_to_song_id mgr) u = Some X" "u \<noteq> []" "X \<noteq> []"
    and "map_of (existing_songs mgr) X = Some info"
    and "valid_item item" "track_uri (item_record item) = u"
  shows "extract_item mgr item =
           (Some ((item_record item)\<lparr>song_id := X, skip_download := True,
                                      existing_song_found := True\<rparr>), [])"
proof -
  have "find_existing_song mgr (item_record item) = Inr (Some (X, info))"
    using assms(1,2,4,6) by (simp add: find_existing_song_eq)
  then have "resolve_track mgr (item_record item) =
     Inr ((item_record item)\<lparr>song_id := X, skip_download := True, existing_song_found := True\<rparr>)"
    using assms(3) by (rule resolve_track_found)
  with assms(5) show ?thesis by (rule extract_item_valid)
qed

text \<open>
  An upsert keeps every song of the song table, and keeps the registration of a URI under
  an identifier of the song table unless it adds a new song with that URI.
\<close>

lemma add_keeps_songs:
  "map_of (existing_songs mgr) k \<noteq> None \<Longrightarrow>
   map_of (existing_songs (fst (add_song_to_playlist now pname sid track res (mgr, ps)))) k \<noteq> None"
proof (cases "map_of (existing_songs mgr) sid")
  case None
  assume "map_of (existing_songs mgr) k \<noteq> None"
  then show ?thesis unfolding add_new[OF None] by (simp add: update_conv')
next
  case (Some found)
  assume "map_of (existing_songs mgr) k \<noteq> None"
  then show ?thesis unfolding add_existing[OF Some] by (simp add: update_conv')
qed

lemma add_keeps_uri:
  assumes "map_of (uri_to_song_id mgr) u = Some X"
    and "track_uri track = u \<longrightarrow> map_of (existing_songs mgr) sid \<noteq> None"
  shows "map_of (uri_to_song_id (fst (add_song_to_playlist now pname sid track res (mgr, ps)))) u =
           Some X"
proof (cases "map_of (existing_songs mgr) sid")
  case None
  with assms show ?thesis unfolding add_new[OF None] by (simp add: register_song_uri)
next
  case (Some found)
  with assms show ?thesis unfolding add_existing[OF Some] by simp
qed

lemma upserts_keep_songs:
  "map_of (existing_songs mgr) k \<noteq> None \<Longrightarrow> map_of (existing_songs (upserts ups mgr)) k \<noteq> None"
proof (induction ups arbitrary: mgr)
  case Nil
  then show ?case by simp
next
  case (Cons up ups)
  obtain now pname sid track res where up: "up = (now, pname, sid, track, res)"
    by (cases up) auto
  show ?case unfolding up upserts_Cons by (rule Cons.IH[OF add_keeps_songs[OF Cons.prems]])
qed

lemma upserts_keep_uri:
  assumes "map_of (uri_to_song_id mgr) u = Some X"
    and "\<forall>(now, pname, sid, track, res) \<in> set ups.
           track_uri track = u \<longrightarrow> map_of (existing_songs mgr) sid \<noteq> None"
  shows "map_of (uri_to_song_id (upserts ups mgr)) u = Some X"
  using assms
proof (induction ups arbitrary: mgr)
  case Nil
  then show ?case by simp
next
  case (Cons up ups)
  obtain now pname sid track res where up: "up = (now, pname, sid, track, res)"
    by (cases up) auto
  let ?m = "fst (add_song_to_playlist now pname sid track res (mgr, []))"
  have a: "map_of (uri_to_song_id ?m) u = Some X"
    using Cons.prems by (intro add_keeps_uri) (auto simp: up)
  have b: "\<forall>(now, pname, sid, track, res) \<in> set ups.
           track_uri track = u \<longrightarrow> map_of (existing_songs ?m) sid \<noteq> None"
    using Cons.prems(2) add_keeps_songs[of mgr _ now pname sid track res "[]"] by (auto simp: up)
  show ?case unfolding up upserts_Cons by (rule Cons.IH[OF a b])
qed

lemma valid_item_a: "valid_item item_a" and record_a: "item_record item_a = track_a"
  by (simp_all add: valid_item_def item_record_def item_a_def typename_track preliminary_a valid_a)

lemma valid_item_b: "valid_item item_b" and record_b: "item_record item_b = track_b"
  by (simp_all add: valid_item_def item_record_def item_b_def typename_track preliminary_b valid_b)


section \<open>The song to playlists mapping\<close>

lemma rebuild_mapping_lookup:
  "distinct (map fst all_songs) \<Longrightarrow>
   map_of (rebuild_mapping all_songs m) k =
     (case map_of all_songs k of
        Some info \<Rightarrow> if playlists info \<noteq> [] then Some (playlists info) else map_of m k
      | None \<Rightarrow> map_of m k)"
proof (induction all_songs arbitrary: m)
  case Nil
  show ?case by (simp add: rebuild_mapping_def)
next
  case (Cons p rest)
  obtain sid info where p: "p = (sid, info)" by (cases p)
  let ?m = "if playlists info \<noteq> [] then AList.update sid (playlists info) m else m"
  have r: "rebuild_mapping (p # rest) m = rebuild_mapping rest ?m"
    by (simp add: rebuild_mapping_def p)
  have d: "distinct (map fst rest)" "sid \<notin> fst ` set rest" using Cons.prems p by auto
  then have n: "map_of rest sid = None" by (simp add: map_of_eq_None_iff)
  show ?case
    unfolding r Cons.IH[OF d(1)]
    using n by (auto simp: p update_conv' split: option.splits)
qed

lemma distinct_dict_update:
  "distinct (map fst d) \<Longrightarrow> distinct (map fst (dict_update d e))"
  unfolding dict_update_def
  by (induction e arbitrary: d) (auto simp: distinct_update)

text \<open>
  Claim C5, as the code has it. The saved mapping starts from the mapping found on disk and
  is overwritten for every saved song with a non-empty membership list. So after a save
  every saved song with a non-empty membership list has a mapping entry equal to that list;
  every mapping entry is either such a song's list or an entry carried over from the
  mapping on disk; and the mapping agrees with the song table in both directions when every
  key of the mapping on disk is a saved song with a non-empty membership list.
\<close>

theorem mapping_after_save:
  assumes "distinct (map fst (table (songs_database d)))"
  shows "(\<forall>sid info. map_of (table (songs_database (save_consolidated_metadata mgr pname pmeta d))) sid
                       = Some info \<and> playlists info \<noteq> [] \<longrightarrow>
            map_of (table (song_playlist_mapping (save_consolidated_metadata mgr pname pmeta d))) sid
              = Some (playlists info)) \<and>
         (\<forall>sid ps. map_of (table (song_playlist_mapping (save_consolidated_metadata mgr pname pmeta d))) sid
                     = Some ps \<longrightarrow>
            (\<exists>info. map_of (table (songs_database (save_consolidated_metadata mgr pname pmeta d))) sid
                       = Some info \<and> playlists info = ps \<and> ps \<noteq> []) \<or>
            map_of (table (song_playlist_mapping d)) sid = Some ps) \<and>
         ((\<forall>sid \<in> fst ` set (table (song_playlist_mapping d)).
              \<exists>info. map_of (table (songs_database (save_consolidated_metadata mgr pname pmeta d))) sid
                       = Some info \<and> playlists info \<noteq> []) \<longrightarrow>
          (\<forall>sid ps. map_of (table (song_playlist_mapping (save_consolidated_metadata mgr pname pmeta d))) sid
                      = Some ps \<longrightarrow>
             (\<exists>info. map_of (table (songs_database (save_consolidated_metadata mgr pname pmeta d))) sid
                        = Some info \<and> playlists info = ps)))"
proof -
  let ?all = "dict_update (table (songs_database d)) (existing_songs mgr)"
  let ?m0 = "table (song_playlist_mapping d)"
  have s: "table (songs_database (save_consolidated_metadata mgr pname pmeta d)) = ?all"
    "table (song_playlist_mapping (save_consolidated_metadata mgr pname pmeta d)) = rebuild_mapping ?all ?m0"
    by (simp_all add: save_consolidated_metadata_def Let_def table_def)
  have dist: "distinct (map fst ?all)" using assms by (rule distinct_dict_update)
  note lk = rebuild_mapping_lookup[OF dist, of ?m0]
  have a: "\<forall>sid info. map_of ?all sid = Some info \<and> playlists info \<noteq> [] \<longrightarrow>
            map_of (rebuild_mapping ?all ?m0) sid = Some (playlists info)"
    by (simp add: lk)
  have b: "\<forall>sid ps. map_of (rebuild_mapping ?all ?m0) sid = Some ps \<longrightarrow>
            (\<exists>info. map_of ?all sid = Some info \<and> playlists info = ps \<and> ps \<noteq> []) \<or>
            map_of ?m0 sid = Some ps"
    by (auto simp: lk split: option.splits if_splits)
  have c: "(\<forall>sid \<in> fst ` set ?m0. \<exists>info. map_of ?all sid = Some info \<and> playlists info \<noteq> []) \<longrightarrow>
          (\<forall>sid ps. map_of (rebuild_mapping ?all ?m0) sid = Some ps \<longrightarrow>
             (\<exists>info. map_of ?all sid = Some info \<and> playlists info = ps))"
  proof (intro impI allI)
    fix sid ps
    assume h: "\<forall>sid \<in> fst ` set ?m0. \<exists>info. map_of ?all sid = Some info \<and> playlists info \<noteq> []"
      and m: "map_of (rebuild_mapping ?all ?m0) sid = Some ps"
    from b m have "(\<exists>info. map_of ?all sid = Some info \<and> playlists info = ps \<and> ps \<noteq> []) \<or>
            map_of ?m0 sid = Some ps" by blast
    then show "\<exists>info. map_of ?all sid = Some info \<and> playlists info = ps"
    proof
      assume "\<exists>info. map_of ?all sid = Some info \<and> playlists info = ps \<and> ps \<noteq> []"
      then show ?thesis by blast
    next
      assume "map_of ?m0 sid = Some ps"
      then have "(sid, ps) \<in> set ?m0" by (rule map_of_SomeD)
      then have "sid \<in> fst ` set ?m0" by (rule image_eqI[rotated]) simp
      with h obtain info where i: "map_of ?all sid = Some info" "playlists info \<noteq> []" by blast
      with m have "ps = playlists info" by (simp add: lk)
      with i show ?thesis by blast
    qed
  qed
  show ?thesis unfolding s by (intro conjI a b c)
qed

theorem mapping_after_save_witness:
  "distinct (map fst (table (songs_database empty_disk))) \<and>
   map_of (table (song_playlist_mapping
     (save_consolidated_metadata
        (fst (add_song_to_playlist ''now'' ''P1'' ''song_d4bb73c2c32a''
             (track_a\<lparr>song_id := ''song_d4bb73c2c32a''\<rparr>)
             (example_result (track_a\<lparr>song_id := ''song_d4bb73c2c32a''\<rparr>)) (new_song_manager, [])))
        ''P1'' (set_playlist_metadata ''P1'' [''song_d4bb73c2c32a''] 1 1 ''url'' ''now'') empty_disk)))
     ''song_d4bb73c2c32a'' = Some [''P1'']"
proof -
  let ?ta = "track_a\<lparr>song_id := ''song_d4bb73c2c32a''\<rparr>"
  let ?mgr = "fst (add_song_to_playlist ''now'' ''P1'' ''song_d4bb73c2c32a'' ?ta (example_result ?ta)
                (new_song_manager, []))"
  let ?pm = "set_playlist_metadata ''P1'' [''song_d4bb73c2c32a''] 1 1 ''url'' ''now''"
  have h: "distinct (map fst (table (songs_database empty_disk)))"
    by (simp add: empty_disk_def table_def)
  have n: "map_of (existing_songs new_song_manager) ''song_d4bb73c2c32a'' = None"
    by (simp add: new_song_manager_def)
  have "\<exists>info. map_of (table (songs_database (save_consolidated_metadata ?mgr ''P1'' ?pm empty_disk)))
          ''song_d4bb73c2c32a'' = Some info \<and> playlists info = [''P1''] \<and> playlists info \<noteq> []"
    by (simp add: save_consolidated_metadata_def Let_def table_def empty_disk_def add_new[OF n]
        dict_update_def) (simp add: new_song_manager_def)
  then obtain info where i: "map_of (table (songs_database (save_consolidated_metadata ?mgr ''P1'' ?pm empty_disk)))
          ''song_d4bb73c2c32a'' = Some info" "playlists info = [''P1'']" "playlists info \<noteq> []" by blast
  from mapping_after_save[OF h, of ?mgr "''P1''" ?pm] i(1,3)
  have "map_of (table (song_playlist_mapping (save_consolidated_metadata ?mgr ''P1'' ?pm empty_disk)))
          ''song_d4bb73c2c32a'' = Some (playlists info)" by blast
  with h i(2) show ?thesis by simp
qed

text \<open>
  The claim as stated fails: a key of the mapping on disk that is no song of the saved song
  table stays in the saved mapping.
\<close>

theorem stale_mapping_entry_survives:
  "map_of (table (song_playlist_mapping (save_consolidated_metadata new_song_manager ''P1''
      (set_playlist_metadata ''P1'' [] 0 0 ''url'' ''now'')
      \<lparr>songs_database = None, playlists_database = None,
       song_playlist_mapping = Some [(''song_0'', [''P0''])]\<rparr>))) ''song_0'' = Some [''P0''] \<and>
   map_of (table (songs_database (save_consolidated_metadata new_song_manager ''P1''
      (set_playlist_metadata ''P1'' [] 0 0 ''url'' ''now'')
      \<lparr>songs_database = None, playlists_database = None,
       song_playlist_mapping = Some [(''song_0'', [''P0''])]\<rparr>))) ''song_0'' = None"
  by (simp add: save_consolidated_metadata_def Let_def table_def new_song_manager_def
      dict_update_def rebuild_mapping_def)

section \<open>Resolution by URI\<close>





text \<open>
  Claim C4, as the code has it. An identifier is registered not when it is minted but when
  it is first upserted by \<open>add_song_to_playlist\<close>, in the download phase, after every item of
  the job has been resolved. That upsert registers the record's URI, when it is not empty,
  and its name+performer key under the identifier in the song manager. From then on, with
  no save or reload, every valid item that carries the same URI, whatever its name and
  performers, is resolved to that identifier, through any later upserts of which each one
  that carries the URI is an upsert of that identifier or of an identifier the song table
  held before.
\<close>

theorem minted_id_registered_at_upsert:
  assumes "map_of (existing_songs mgr) sid = None" and "sid \<noteq> []"
    and "mgr' = fst (add_song_to_playlist now pname sid track res (mgr, ps))"
  shows "(track_uri track \<noteq> [] \<longrightarrow>
            map_of (uri_to_song_id mgr') (track_uri track) = Some sid) \<and>
         (\<forall>k. name_artist_key track = Some k \<longrightarrow>
            map_of (name_artist_to_song_id mgr') k = Some sid) \<and>
         (\<forall>item ups.
            valid_item item \<and> track_uri (item_record item) = track_uri track \<and>
            track_uri track \<noteq> [] \<and>
            (\<forall>(now', pname', sid', track', res') \<in> set ups.
               track_uri track' = track_uri track \<longrightarrow>
                 sid' = sid \<or> map_of (existing_songs mgr) sid' \<noteq> None) \<longrightarrow>
            extract_item (upserts ups mgr') item =
              (Some ((item_record item)\<lparr>song_id := sid, skip_download := True,
                                         existing_song_found := True\<rparr>), []))"
proof -
  have m: "mgr' = fst (add_song_to_playlist now pname sid track res (mgr, []))"
    unfolding assms(3) by (rule add_song_manager_any_list)
  have u: "track_uri track \<noteq> [] \<Longrightarrow> map_of (uri_to_song_id mgr') (track_uri track) = Some sid"
    unfolding assms(3) by (simp add: add_new[OF assms(1)] register_song_uri)
  have k: "name_artist_key track = Some k \<Longrightarrow> map_of (name_artist_to_song_id mgr') k = Some sid" for k
    unfolding assms(3) by (simp add: add_new[OF assms(1)] register_song_key)
  have s: "map_of (existing_songs mgr') sid \<noteq> None"
    unfolding assms(3) by (simp add: add_new[OF assms(1)] update_conv')
  have old: "map_of (existing_songs mgr) sid' \<noteq> None \<Longrightarrow> map_of (existing_songs mgr') sid' \<noteq> None"
    for sid'
    unfolding assms(3) by (rule add_keeps_songs)
  have e: "extract_item (upserts ups mgr') item =
              (Some ((item_record item)\<lparr>song_id := sid, skip_download := True,
                                         existing_song_found := True\<rparr>), [])"
    if v: "valid_item item" "track_uri (item_record item) = track_uri track" "track_uri track \<noteq> []"
      and later: "\<forall>(now', pname', sid', track', res') \<in> set ups.
               track_uri track' = track_uri track \<longrightarrow>
                 sid' = sid \<or> map_of (existing_songs mgr) sid' \<noteq> None"
    for item ups
  proof -
    have l: "\<forall>(now', pname', sid', track', res') \<in> set ups.
               track_uri track' = track_uri track \<longrightarrow> map_of (existing_songs mgr') sid' \<noteq> None"
      using later s old by fastforce
    have a: "map_of (uri_to_song_id (upserts ups mgr')) (track_uri track) = Some sid"
      by (rule upserts_keep_uri[OF u[OF v(3)] l])
    have "map_of (existing_songs (upserts ups mgr')) sid \<noteq> None"
      by (rule upserts_keep_songs[OF s])
    then obtain info where b: "map_of (existing_songs (upserts ups mgr')) sid = Some info" by blast
    show ?thesis using a v(3) assms(2) b v(1,2) by (rule extract_item_by_uri)
  qed
  show ?thesis using u k e by blast
qed

theorem minted_id_registered_at_upsert_witness:
  "map_of (uri_to_song_id
     (fst (add_song_to_playlist ''now'' ''P1'' ''song_d4bb73c2c32a''
             (track_a\<lparr>song_id := ''song_d4bb73c2c32a''\<rparr>)
             (example_result (track_a\<lparr>song_id := ''song_d4bb73c2c32a''\<rparr>)) (new_song_manager, []))))
     ''spotify:track:1'' = Some ''song_d4bb73c2c32a'' \<and>
   song_id (the (fst (extract_item
     (upserts [(''later'', ''P2'', ''song_d4bb73c2c32a'',
                track_b\<lparr>song_id := ''song_d4bb73c2c32a'', skip_download := True,
                        existing_song_found := True\<rparr>,
                example_result (track_b\<lparr>song_id := ''song_d4bb73c2c32a''\<rparr>))]
       (fst (add_song_to_playlist ''now'' ''P1'' ''song_d4bb73c2c32a''
             (track_a\<lparr>song_id := ''song_d4bb73c2c32a''\<rparr>)
             (example_result (track_a\<lparr>song_id := ''song_d4bb73c2c32a''\<rparr>)) (new_song_manager, []))))
     item_b))) = ''song_d4bb73c2c32a''"
proof -
  let ?ta = "track_a\<lparr>song_id := ''song_d4bb73c2c32a''\<rparr>"
  let ?tb = "track_b\<lparr>song_id := ''song_d4bb73c2c32a'', skip_download := True,
                        existing_song_found := True\<rparr>"
  let ?ups = "[(''later'', ''P2'', ''song_d4bb73c2c32a'', ?tb,
                example_result (track_b\<lparr>song_id := ''song_d4bb73c2c32a''\<rparr>))]"
  let ?m = "fst (add_song_to_playlist ''now'' ''P1'' ''song_d4bb73c2c32a'' ?ta (example_result ?ta)
        (new_song_manager, []))"
  have n: "map_of (existing_songs new_song_manager) ''song_d4bb73c2c32a'' = None"
    by (simp add: new_song_manager_def)
  have ne: "''song_d4bb73c2c32a'' \<noteq> []" by simp
  have u: "track_uri ?ta = ''spotify:track:1''" by (simp add: fields_a)
  have b: "valid_item item_b \<and> track_uri (item_record item_b) = track_uri ?ta \<and> track_uri ?ta \<noteq> [] \<and>
      (\<forall>(now', pname', sid', track', res') \<in> set ?ups.
         track_uri track' = track_uri ?ta \<longrightarrow>
           sid' = ''song_d4bb73c2c32a'' \<or> map_of (existing_songs new_song_manager) sid' \<noteq> None)"
    by (simp add: valid_item_b record_b fields_a fields_b)
  note t = minted_id_registered_at_upsert[OF n ne refl, of ?ta "''now''" "''P1''" "example_result ?ta" "[]"]
  from t u have a: "map_of (uri_to_song_id ?m) ''spotify:track:1'' = Some ''song_d4bb73c2c32a''" by simp
  from t b have "extract_item (upserts ?ups ?m) item_b =
     (Some ((item_record item_b)\<lparr>song_id := ''song_d4bb73c2c32a'', skip_download := True,
                                  existing_song_found := True\<rparr>), [])" by blast
  with a show ?thesis by simp
qed


text \<open>
  The claim as stated fails: two items of one job that carry the same URI under different
  names are both resolved before either is registered, and get two identifiers.
\<close>

theorem same_uri_two_ids_in_one_job:
  "map track_uri (fst (extract_enhanced_track_info new_song_manager [item_a, item_b])) =
     [''spotify:track:1'', ''spotify:track:1''] \<and>
   map song_id (fst (extract_enhanced_track_info new_song_manager [item_a, item_b])) =
     [''song_d4bb73c2c32a'', ''song_f8228e343e33'']"
  by (simp add: extract_ab_new fields_a fields_b)

section \<open>Jobs that are never cancelled\<close>

lemma not_cancelled_None [simp]: "\<not> is_cancelled None t" "check_pause None t"
  by (simp_all add: is_cancelled_def check_pause_def)

lemma wait_for_capture_None: "\<not> is_cancelled None (wait_for_capture None polls t)"
  by simp

lemma after_track_manager:
  "manager (after_track now pname track res t st) =
     fst (add_song_to_playlist now pname (song_id track) track res (manager st, []))"
  "manager (count_result res st) = manager st"
  by (simp_all add: after_track_def count_result_def split: prod.splits,
      metis add_song_manager_any_list fst_conv)

lemma upserts_append: "upserts (xs @ ys) mgr = upserts ys (upserts xs mgr)"
  by (simp add: upserts_def)

lemma download_loop_upserts:
  "\<exists>ups. map (\<lambda>(now, p, s, t, r). (p, s, t)) ups = map (\<lambda>t. (pname, song_id t, t)) tracks \<and>
         manager (download_loop None approved pname env i tracks st) = upserts ups (manager st)"
proof (induction tracks arbitrary: i st)
  case Nil
  show ?case by (intro exI[of _ "[]"]) simp
next
  case (Cons track rest)
  obtain res t where tr: "track_result None approved (downloads env i) track (Suc (Suc (tick st))) = (res, t)"
    by fastforce
  have nc: "status res \<noteq> ''cancelled''"
    using track_result_cancelled[OF tr] by simp
  let ?st1 = "count_result res (after_track (clock env i) pname track res t st)"
  have step: "download_loop None approved pname env i (track # rest) st =
                download_loop None approved pname env (Suc i) rest ?st1"
    using tr nc by simp
  have m1: "manager ?st1 = upserts [(clock env i, pname, song_id track, track, res)] (manager st)"
    by (simp add: after_track_manager upserts_Cons)
  from Cons.IH[of "Suc i" ?st1] obtain ups where
    ups: "map (\<lambda>(now, p, s, t, r). (p, s, t)) ups = map (\<lambda>t. (pname, song_id t, t)) rest"
      "manager (download_loop None approved pname env (Suc i) rest ?st1) = upserts ups (manager ?st1)"
    by blast
  show ?case
    unfolding step
    by (intro exI[of _ "(clock env i, pname, song_id track, track, res) # ups"])
       (simp add: ups m1 upserts_Cons)
qed

text \<open>A job that is never cancelled upserts every track it extracted and saves the tables.\<close>

lemma process_never_cancelled:
  assumes "process_single_playlist env None approved pname url w = (jr, w')"
    and "tracks = fst (extract_enhanced_track_info (song_mgr w) (snd (capture_requests (events env) ([], []))))"
  shows "(tracks = [] \<longrightarrow> song_mgr w' = song_mgr w \<and> files w' = files w) \<and>
         (tracks \<noteq> [] \<longrightarrow>
            (\<exists>ups pmeta.
               map (\<lambda>(now, p, s, t, r). (p, s, t)) ups = map (\<lambda>t. (pname, song_id t, t)) tracks \<and>
               song_mgr w' = upserts ups (song_mgr w) \<and>
               files w' = save_consolidated_metadata (song_mgr w') pname pmeta (files w)))"
proof (cases "tracks = []")
  case True
  with assms show ?thesis
    by (auto simp: process_single_playlist_def Let_def extract_nil split: if_splits prod.splits)
next
  case False
  let ?items = "snd (capture_requests (events env) ([], []))"
  let ?t1 = "wait_for_capture None (capture_polls env) (Suc (reads w))"
  obtain skipped where ex: "extract_enhanced_track_info (song_mgr w) ?items = (tracks, skipped)"
    using assms(2) by (metis prod.collapse)
  from False ex have ne: "?items \<noteq> []" by (auto simp: extract_nil)
  let ?init = "\<lparr>manager = song_mgr w, playlist_songs = [], successful = 0,
                failed_downloads = 0, skipped_downloads = 0, existing_reused = 0,
                cancelled_downloads = 0, download_log = [], tick = Suc ?t1\<rparr>"
  let ?fin = "download_loop None approved pname env 0 tracks ?init"
  let ?pmeta = "set_playlist_metadata pname (playlist_songs ?fin) (length tracks)
                                (successful ?fin) url (clock env (length tracks))"
  from assms(1) ex False ne have r: "song_mgr w' = manager ?fin"
    "files w' = save_consolidated_metadata (manager ?fin) pname ?pmeta (files w)"
    by (auto simp: process_single_playlist_def Let_def)
  from download_loop_upserts[of pname tracks approved env 0 ?init] obtain ups where
    ups: "map (\<lambda>(now, p, s, t, r). (p, s, t)) ups = map (\<lambda>t. (pname, song_id t, t)) tracks"
      "manager ?fin = upserts ups (song_mgr w)" by auto
  show ?thesis using False r ups by auto
qed

section \<open>Upserts of one song\<close>

lemma run_jobs_Nil [simp]: "run_jobs [] w = w"
  by (simp add: run_jobs_def)

lemma run_jobs_Cons:
  "run_jobs ((env, approved, pname, url) # jobs) w =
     run_jobs jobs (snd (process_single_playlist env None approved pname url w))"
  by (simp add: run_jobs_def)

text \<open>Upserting a song into a playlist a second time changes nothing.\<close>

lemma add_song_twice:
  "add_song_to_playlist now' pname sid track' res'
     (add_song_to_playlist now pname sid track res (mgr, ps)) =
   add_song_to_playlist now pname sid track res (mgr, ps)"
proof (cases "map_of (existing_songs mgr) sid")
  case None
  have "map_of (existing_songs (fst (add_song_to_playlist now pname sid track res (mgr, ps)))) sid =
        Some \<lparr>info_song_id = sid,
                  info_filename = path_name (get_consolidated_song_path sid ''.mp3''),
                  original_filename = filename res,
                  file_path = path_str (get_consolidated_song_path sid ''.mp3''),
                  metadata = track, playlists = [pname], added_at = now, last_updated = now,
                  song_download_info =
                    \<lparr>info_video_title = video_title res, info_search_query = search_query res,
                     download_status = status res, downloaded_at = now\<rparr>\<rparr>"
    by (simp add: add_new[OF None] update_conv')
  from add_existing[OF this, of now' pname track' res'
      "snd (add_song_to_playlist now pname sid track res (mgr, ps))"]
  show ?thesis by (simp add: add_new[OF None])
next
  case (Some found)
  show ?thesis
  proof (cases "pname \<in> set (playlists found)")
    case True
    with Some show ?thesis by (simp add: add_existing[OF Some])
  next
    case False
    let ?f = "found\<lparr>playlists := playlists found @ [pname], last_updated := now\<rparr>"
    let ?m = "mgr\<lparr>existing_songs := AList.update sid ?f (existing_songs mgr)\<rparr>"
    have s: "map_of (existing_songs ?m) sid = Some ?f" by (simp add: update_conv')
    have a: "add_song_to_playlist now pname sid track res (mgr, ps) =
               (?m, if sid \<in> set ps then ps else ps @ [sid])"
      using False by (simp add: add_existing[OF Some])
    show ?thesis unfolding a by (simp add: add_existing[OF s])
  qed
qed

text \<open>A song manager that holds one song, to which both look-up tables point.\<close>

lemma single_song_resolve:
  assumes "existing_songs m = [(g, info)]"
    and "\<forall>u s. map_of (uri_to_song_id m) u = Some s \<longrightarrow> s = g"
    and "\<forall>k s. map_of (name_artist_to_song_id m) k = Some s \<longrightarrow> s = g"
    and "g = generate_song_id (track_name p) (artists_string p)"
  shows "\<exists>b. resolve_track m p = Inr (p\<lparr>song_id := g, skip_download := b, existing_song_found := b\<rparr>)"
proof -
  let ?l = "case (if track_uri p \<noteq> [] then map_of (uri_to_song_id m) (track_uri p) else None) of
              Some sid \<Rightarrow> Some sid
            | None \<Rightarrow> (case name_artist_key p of
                          Some k \<Rightarrow> map_of (name_artist_to_song_id m) k | None \<Rightarrow> None)"
  have a: "map_of (uri_to_song_id m) u = None \<or> map_of (uri_to_song_id m) u = Some g" for u
    using assms(2) by (cases "map_of (uri_to_song_id m) u") auto
  have b: "map_of (name_artist_to_song_id m) k = None \<or> map_of (name_artist_to_song_id m) k = Some g"
    for k using assms(3) by (cases "map_of (name_artist_to_song_id m) k") auto
  have l: "?l = None \<or> ?l = Some g"
  proof (cases "name_artist_key p")
    case None
    with a[of "track_uri p"] show ?thesis by auto
  next
    case (Some k)
    with a[of "track_uri p"] b[of k] show ?thesis by auto
  qed
  have gne: "g \<noteq> []" unfolding assms(4) by simp
  from l show ?thesis
  proof
    assume "?l = None"
    then have "find_existing_song m p = Inr None" by (simp add: find_existing_song_eq)
    then show ?thesis
      by (intro exI[of _ False])
         (simp add: resolve_track_def ENABLE_SMART_DEDUPLICATION_def Let_def assms(4))
  next
    assume "?l = Some g"
    then have "find_existing_song m p = Inr (Some (g, info))"
      by (simp add: find_existing_song_eq assms(1))
    then show ?thesis
      using gne by (intro exI[of _ True]) (simp add: resolve_track_found)
  qed
qed

lemma single_song_upsert:
  assumes "existing_songs m = [(g, info)]"
  shows "fst (add_song_to_playlist now pname g track res (m, ps)) =
           m\<lparr>existing_songs :=
               [(g, if pname \<in> set (playlists info) then info
                    else info\<lparr>playlists := playlists info @ [pname], last_updated := now\<rparr>)]\<rparr>"
proof -
  have s: "map_of (existing_songs m) g = Some info" by (simp add: assms)
  show ?thesis by (simp add: add_existing[OF s] assms)
qed

lemma first_song_upsert:
  "\<exists>info. existing_songs (fst (add_song_to_playlist now pname g track res (new_song_manager, ps))) =
            [(g, info)] \<and> playlists info = [pname] \<and> metadata info = track \<and>
     (\<forall>u s. map_of (uri_to_song_id (fst (add_song_to_playlist now pname g track res (new_song_manager, ps)))) u = Some s \<longrightarrow> s = g) \<and>
     (\<forall>k s. map_of (name_artist_to_song_id (fst (add_song_to_playlist now pname g track res (new_song_manager, ps)))) k = Some s \<longrightarrow> s = g)"
proof -
  have n: "map_of (existing_songs new_song_manager) g = None" by (simp add: new_song_manager_def)
  show ?thesis
    unfolding add_new[OF n]
    by (auto simp: register_song_uri register_song_key new_song_manager_def
             split: if_splits option.splits)
qed


lemma single_item_job:
  assumes "valid_item item"
    and "snd (capture_requests (events env) ([], [])) = [item]"
    and "resolve_track (song_mgr w) (item_record item) = Inr t"
  shows "\<exists>now res pmeta.
           song_mgr (snd (process_single_playlist env None approved pname url w)) =
             fst (add_song_to_playlist now pname (song_id t) t res (song_mgr w, [])) \<and>
           files (snd (process_single_playlist env None approved pname url w)) =
             save_consolidated_metadata
               (song_mgr (snd (process_single_playlist env None approved pname url w)))
               pname pmeta (files w)"
proof -
  let ?p = "process_single_playlist env None approved pname url w"
  have e: "extract_item (song_mgr w) item = (Some t, [])"
    by (rule extract_item_valid[OF assms(1,3)])
  have tr: "[t] = fst (extract_enhanced_track_info (song_mgr w)
                         (snd (capture_requests (events env) ([], []))))"
    by (simp add: assms(2) extract_cons extract_nil e)
  note n = process_never_cancelled[OF prod.collapse[symmetric] tr, of approved pname url]
  have "[t] \<noteq> []" by simp
  with n have "\<exists>ups pmeta.
       map (\<lambda>(now, p, s, t, r). (p, s, t)) ups = map (\<lambda>t. (pname, song_id t, t)) [t] \<and>
       song_mgr (snd ?p) = upserts ups (song_mgr w) \<and>
       files (snd ?p) = save_consolidated_metadata (song_mgr (snd ?p)) pname pmeta (files w)"
    by blast
  then obtain ups pmeta where
    u: "map (\<lambda>(now, p, s, t, r). (p, s, t)) ups = map (\<lambda>t. (pname, song_id t, t)) [t]"
       "song_mgr (snd ?p) = upserts ups (song_mgr w)"
       "files (snd ?p) = save_consolidated_metadata (song_mgr (snd ?p)) pname pmeta (files w)"
    by blast
  from u(1) obtain now res where "ups = [(now, pname, song_id t, t, res)]"
    by (cases ups) auto
  with u(2) have "song_mgr (snd ?p) =
      fst (add_song_to_playlist now pname (song_id t) t res (song_mgr w, []))"
    by (simp add: upserts_Cons)
  with u(3) show ?thesis by blast
qed

lemma songs_after_save:
  "songs_database (save_consolidated_metadata mgr pname pmeta d) =
     Some (dict_update (table (songs_database d)) (existing_songs mgr))"
  by (simp add: save_consolidated_metadata_def Let_def)


lemma membership_fold_both:
  "set names \<subseteq> {P1, P2} \<Longrightarrow>
   fold (\<lambda>pn pl. if pn \<in> set pl then pl else pl @ [pn]) names [P1, P2] = [P1, P2]"
  by (induction names) auto

lemma membership_fold:
  "set names \<subseteq> {P1, P2} \<Longrightarrow> P1 \<noteq> P2 \<Longrightarrow>
   fold (\<lambda>pn pl. if pn \<in> set pl then pl else pl @ [pn]) names [P1] =
     (if P2 \<in> set names then [P1, P2] else [P1])"
proof (induction names)
  case Nil
  show ?case by simp
next
  case (Cons n names)
  then have "n = P1 \<or> n = P2" by auto
  then show ?case
  proof
    assume "n = P1"
    with Cons show ?thesis by auto
  next
    assume "n = P2"
    with Cons.prems membership_fold_both[of names P1 P2] show ?thesis by auto
  qed
qed

lemma single_song_jobs:
  assumes "valid_item item"
    and "g = generate_song_id (track_name (item_record item)) (artists_string (item_record item))"
    and "\<forall>(env, approved, pn, url) \<in> set jobs. snd (capture_requests (events env) ([], [])) = [item]"
    and "existing_songs (song_mgr w) = [(g, info)]"
    and "songs_database (files w) = Some [(g, info)]"
    and "\<forall>u s. map_of (uri_to_song_id (song_mgr w)) u = Some s \<longrightarrow> s = g"
    and "\<forall>k s. map_of (name_artist_to_song_id (song_mgr w)) k = Some s \<longrightarrow> s = g"
  shows "\<exists>info'. existing_songs (song_mgr (run_jobs jobs w)) = [(g, info')] \<and>
           songs_database (files (run_jobs jobs w)) = Some [(g, info')] \<and>
           metadata info' = metadata info \<and>
           playlists info' =
             fold (\<lambda>pn pl. if pn \<in> set pl then pl else pl @ [pn])
               (map (\<lambda>(env, approved, pn, url). pn) jobs) (playlists info)"
  using assms(3-7)
proof (induction jobs arbitrary: w info)
  case Nil
  then show ?case by simp
next
  case (Cons job jobs)
  obtain env approved pn url where job: "job = (env, approved, pn, url)" by (cases job) auto
  let ?w' = "snd (process_single_playlist env None approved pn url w)"
  from Cons.prems(1) have it: "snd (capture_requests (events env) ([], [])) = [item]"
    and rest: "\<forall>(env, approved, pn, url) \<in> set jobs. snd (capture_requests (events env) ([], [])) = [item]"
    by (auto simp: job)
  from single_song_resolve[OF Cons.prems(2,4,5) assms(2)] obtain b where
    r: "resolve_track (song_mgr w) (item_record item) =
          Inr ((item_record item)\<lparr>song_id := g, skip_download := b, existing_song_found := b\<rparr>)"
    by blast
  from single_item_job[OF assms(1) it r, of approved pn url] obtain now res pmeta where
    j: "song_mgr ?w' = fst (add_song_to_playlist now pn g
            ((item_record item)\<lparr>song_id := g, skip_download := b, existing_song_found := b\<rparr>) res
            (song_mgr w, []))"
       "files ?w' = save_consolidated_metadata (song_mgr ?w') pn pmeta (files w)"
    by auto
  let ?i = "if pn \<in> set (playlists info) then info
            else info\<lparr>playlists := playlists info @ [pn], last_updated := now\<rparr>"
  have m: "song_mgr ?w' = (song_mgr w)\<lparr>existing_songs := [(g, ?i)]\<rparr>"
    unfolding j(1) by (rule single_song_upsert[OF Cons.prems(2)])
  have a: "existing_songs (song_mgr ?w') = [(g, ?i)]" by (simp add: m)
  have b: "songs_database (files ?w') = Some [(g, ?i)]"
    unfolding j(2) songs_after_save a by (simp add: Cons.prems(3) table_def dict_update_def)
  have c: "\<forall>u s. map_of (uri_to_song_id (song_mgr ?w')) u = Some s \<longrightarrow> s = g"
    "\<forall>k s. map_of (name_artist_to_song_id (song_mgr ?w')) k = Some s \<longrightarrow> s = g"
    using Cons.prems(4,5) by (simp_all add: m)
  from Cons.IH[OF rest a b c] obtain info' where
    i: "existing_songs (song_mgr (run_jobs jobs ?w')) = [(g, info')]"
       "songs_database (files (run_jobs jobs ?w')) = Some [(g, info')]"
       "metadata info' = metadata ?i"
       "playlists info' =
             fold (\<lambda>pn pl. if pn \<in> set pl then pl else pl @ [pn])
               (map (\<lambda>(env, approved, pn, url). pn) jobs) (playlists ?i)"
    by blast
  have mi: "metadata ?i = metadata info" by simp
  have pi: "playlists ?i = (if pn \<in> set (playlists info) then playlists info else playlists info @ [pn])"
    by simp
  show ?case
    unfolding job run_jobs_Cons
    by (intro exI[of _ info']) (simp add: i mi pi)
qed


text \<open>
  Claim C3. Upserting a song into a playlist a second time, whatever the track data, the
  download result and the clock of the second call, returns the state of the first call.
  Let capture jobs that are never cancelled run one after the other from an empty song
  table, each capturing the same valid item: the first for playlist \<open>P1\<close>, the later ones,
  in any number and order, for \<open>P1\<close> or \<open>P2\<close>, at least one of them for \<open>P2\<close>. Then the song
  table, in memory and as saved, holds exactly one entry, under the identifier minted for
  the item, with the metadata of its first ingestion and the membership list \<open>[P1, P2]\<close>.
\<close>

theorem upsert_accumulates_playlists:
  "add_song_to_playlist now' pname sid track' res'
     (add_song_to_playlist now pname sid track res (mgr, ps)) =
   add_song_to_playlist now pname sid track res (mgr, ps) \<and>
   (valid_item item \<and>
    (\<forall>(env, approved, pn, url) \<in> set ((env1, approved1, P1, url1) # jobs).
       snd (capture_requests (events env) ([], [])) = [item]) \<and>
    (\<forall>(env, approved, pn, url) \<in> set jobs. pn = P1 \<or> pn = P2) \<and>
    (\<exists>env approved url. (env, approved, P2, url) \<in> set jobs) \<and>
    P1 \<noteq> P2 \<and>
    song_mgr w = new_song_manager \<and> table (songs_database (files w)) = [] \<longrightarrow>
    (\<exists>info.
       existing_songs (song_mgr (run_jobs ((env1, approved1, P1, url1) # jobs) w)) =
         [(generate_song_id (track_name (item_record item)) (artists_string (item_record item)),
           info)] \<and>
       songs_database (files (run_jobs ((env1, approved1, P1, url1) # jobs) w)) =
         Some [(generate_song_id (track_name (item_record item)) (artists_string (item_record item)),
                info)] \<and>
       metadata info =
         (item_record item)\<lparr>song_id :=
            generate_song_id (track_name (item_record item)) (artists_string (item_record item)),
            skip_download := False, existing_song_found := False\<rparr> \<and>
       playlists info = [P1, P2]))"
proof (intro conjI impI)
  show "add_song_to_playlist now' pname sid track' res'
     (add_song_to_playlist now pname sid track res (mgr, ps)) =
   add_song_to_playlist now pname sid track res (mgr, ps)"
    by (rule add_song_twice)
next
  define g where "g = generate_song_id (track_name (item_record item)) (artists_string (item_record item))"
  assume a: "valid_item item \<and>
    (\<forall>(env, approved, pn, url) \<in> set ((env1, approved1, P1, url1) # jobs).
       snd (capture_requests (events env) ([], [])) = [item]) \<and>
    (\<forall>(env, approved, pn, url) \<in> set jobs. pn = P1 \<or> pn = P2) \<and>
    (\<exists>env approved url. (env, approved, P2, url) \<in> set jobs) \<and>
    P1 \<noteq> P2 \<and>
    song_mgr w = new_song_manager \<and> table (songs_database (files w)) = []"
  then have v: "valid_item item"
    and it1: "snd (capture_requests (events env1) ([], [])) = [item]"
    and its: "\<forall>(env, approved, pn, url) \<in> set jobs. snd (capture_requests (events env) ([], [])) = [item]"
    and names: "\<forall>(env, approved, pn, url) \<in> set jobs. pn = P1 \<or> pn = P2"
    and p2: "\<exists>env approved url. (env, approved, P2, url) \<in> set jobs"
    and ne: "P1 \<noteq> P2"
    and w: "song_mgr w = new_song_manager" "table (songs_database (files w)) = []"
    by simp_all
  let ?t = "(item_record item)\<lparr>song_id := g, skip_download := False, existing_song_found := False\<rparr>"
  let ?w1 = "snd (process_single_playlist env1 None approved1 P1 url1 w)"
  have r: "resolve_track (song_mgr w) (item_record item) = Inr ?t"
    by (simp add: w(1) resolve_track_def find_new ENABLE_SMART_DEDUPLICATION_def Let_def g_def)
  from single_item_job[OF v it1 r, of approved1 P1 url1] obtain now0 res0 pmeta where
    j: "song_mgr ?w1 = fst (add_song_to_playlist now0 P1 g ?t res0 (new_song_manager, []))"
       "files ?w1 = save_consolidated_metadata (song_mgr ?w1) P1 pmeta (files w)"
    by (auto simp: w(1))
  from first_song_upsert[of now0 P1 g ?t res0 "[]"] obtain info1 where
    f: "existing_songs (song_mgr ?w1) = [(g, info1)]" "playlists info1 = [P1]" "metadata info1 = ?t"
       "\<forall>u s. map_of (uri_to_song_id (song_mgr ?w1)) u = Some s \<longrightarrow> s = g"
       "\<forall>k s. map_of (name_artist_to_song_id (song_mgr ?w1)) k = Some s \<longrightarrow> s = g"
    unfolding j(1)[symmetric] by blast
  have d: "songs_database (files ?w1) = Some [(g, info1)]"
    unfolding j(2) songs_after_save f(1) by (simp add: w(2) dict_update_def)
  from single_song_jobs[OF v g_def its f(1) d f(4,5)] obtain info where
    i: "existing_songs (song_mgr (run_jobs jobs ?w1)) = [(g, info)]"
       "songs_database (files (run_jobs jobs ?w1)) = Some [(g, info)]"
       "metadata info = metadata info1"
       "playlists info =
             fold (\<lambda>pn pl. if pn \<in> set pl then pl else pl @ [pn])
               (map (\<lambda>(env, approved, pn, url). pn) jobs) (playlists info1)"
    by blast
  have sub: "set (map (\<lambda>(env, approved, pn, url). pn) jobs) \<subseteq> {P1, P2}"
    using names by auto
  have mem: "P2 \<in> set (map (\<lambda>(env, approved, pn, url). pn) jobs)"
    using p2 by force
  have pl: "playlists info = [P1, P2]"
    using mem by (simp only: i(4) f(2) membership_fold[OF sub ne] if_True)
  show "\<exists>info.
       existing_songs (song_mgr (run_jobs ((env1, approved1, P1, url1) # jobs) w)) =
         [(generate_song_id (track_name (item_record item)) (artists_string (item_record item)),
           info)] \<and>
       songs_database (files (run_jobs ((env1, approved1, P1, url1) # jobs) w)) =
         Some [(generate_song_id (track_name (item_record item)) (artists_string (item_record item)),
                info)] \<and>
       metadata info =
         (item_record item)\<lparr>song_id :=
            generate_song_id (track_name (item_record item)) (artists_string (item_record item)),
            skip_download := False, existing_song_found := False\<rparr> \<and>
       playlists info = [P1, P2]"
    unfolding run_jobs_Cons g_def[symmetric]
    by (intro exI[of _ info]) (simp add: i(1-3) f(3) pl)
qed

theorem upsert_accumulates_playlists_witness:
  "map (\<lambda>(sid, info). (sid, playlists info))
     (existing_songs (song_mgr (run_jobs
        [(example_env [item_a], True, ''P1'', ''url''), (example_env [item_a], True, ''P2'', ''url''),
         (example_env [item_a], False, ''P1'', ''url''), (example_env [item_a], True, ''P2'', ''url'')]
        \<lparr>song_mgr = new_song_manager, files = empty_disk, reads = 0,
         skipped_tracks_log = [], download_results = []\<rparr>))) =
   [(''song_d4bb73c2c32a'', [''P1'', ''P2''])]"
proof -
  let ?e = "example_env [item_a]"
  let ?jobs = "[(?e, True, ''P2'', ''url''), (?e, False, ''P1'', ''url''), (?e, True, ''P2'', ''url'')]"
  let ?w = "\<lparr>song_mgr = new_song_manager, files = empty_disk, reads = 0,
         skipped_tracks_log = [], download_results = []\<rparr>"
  have h1: "\<forall>(env, approved, pn, url) \<in> set ((?e, True, ''P1'', ''url'') # ?jobs).
       snd (capture_requests (events env) ([], [])) = [item_a]"
    by (simp add: capture_example)
  have h2: "\<forall>(env, approved, pn, url) \<in> set ?jobs. pn = ''P1'' \<or> pn = ''P2''" by simp
  have h3: "\<exists>env approved url. (env, approved, ''P2'', url) \<in> set ?jobs"
    by (intro exI[of _ ?e] exI[of _ True] exI[of _ "''url''"]) simp
  have h4: "''P1'' \<noteq> ''P2''" by simp
  have h5: "song_mgr ?w = new_song_manager \<and> table (songs_database (files ?w)) = []"
    by (simp add: empty_disk_def table_def)
  note t = upsert_accumulates_playlists[where item=item_a and ?env1.0="?e" and ?approved1.0=True
      and ?P1.0="''P1''" and ?url1.0="''url''" and jobs="?jobs" and ?P2.0="''P2''" and w="?w"]
  note c = conjunct2[OF t, THEN mp, OF conjI[OF valid_item_a conjI[OF h1 conjI[OF h2 conjI[OF h3 conjI[OF h4 h5]]]]]]
  from c obtain info where
    "existing_songs (song_mgr (run_jobs ((?e, True, ''P1'', ''url'') # ?jobs) ?w)) =
       [(generate_song_id (track_name (item_record item_a)) (artists_string (item_record item_a)), info)]"
    "playlists info = [''P1'', ''P2'']"
    by (elim exE conjE)
  then show ?thesis by (simp add: record_a fields_a song_id_a)
qed

section \<open>Association lists\<close>

lemma update_new_key: "k \<notin> fst ` set al \<Longrightarrow> AList.update k v al = al @ [(k, v)]"
  by (induction al) auto

lemma update_in_prefix:
  "k \<in> fst ` set xs \<Longrightarrow> AList.update k v (xs @ ys) = AList.update k v xs @ ys"
  by (induction xs) auto

lemma update_in_suffix:
  "k \<notin> fst ` set xs \<Longrightarrow> AList.update k v (xs @ ys) = xs @ AList.update k v ys"
  by (induction xs) auto

lemma fold_update_append:
  "distinct (map fst (A @ S)) \<Longrightarrow> fold (\<lambda>(k, v). AList.update k v) S A = A @ S"
proof (induction S arbitrary: A)
  case Nil
  show ?case by simp
next
  case (Cons p S)
  obtain k v where p: "p = (k, v)" by (cases p)
  from Cons.prems have "k \<notin> fst ` set A" by (auto simp: p)
  then have "AList.update k v A = A @ [(k, v)]" by (rule update_new_key)
  moreover have "distinct (map fst ((A @ [(k, v)]) @ S))" using Cons.prems by (simp add: p)
  ultimately show ?case using Cons.IH[of "A @ [(k, v)]"] by (simp add: p)
qed

lemma alist_eqI:
  "map fst xs = map fst ys \<Longrightarrow> distinct (map fst xs) \<Longrightarrow> map_of xs = map_of ys \<Longrightarrow> xs = ys"
proof (induction xs arbitrary: ys)
  case Nil
  then show ?case by simp
next
  case (Cons p xs)
  then obtain q ys' where ys: "ys = q # ys'" by (cases ys) auto
  obtain k v where p: "p = (k, v)" by (cases p)
  obtain k' v' where q: "q = (k', v')" by (cases q)
  from Cons.prems(1) have k: "k' = k" "map fst xs = map fst ys'" by (simp_all add: ys p q)
  have "map_of (p # xs) k = map_of ys k" by (rule fun_cong[OF Cons.prems(3)])
  then have v: "v' = v" by (simp add: ys p q k)
  have nk: "k \<notin> fst ` set xs" using Cons.prems(2) by (simp add: p)
  then have nk': "k \<notin> fst ` set ys'" using k(2) by (metis set_map)
  have "map_of xs = map_of ys'"
  proof
    fix x
    show "map_of xs x = map_of ys' x"
    proof (cases "x = k")
      case True
      have "map_of xs k = None" "map_of ys' k = None"
        using nk nk' by (simp_all add: map_of_eq_None_iff)
      with True show ?thesis by simp
    next
      case False
      have "map_of (p # xs) x = map_of ys x" by (rule fun_cong[OF Cons.prems(3)])
      with False show ?thesis by (simp add: ys p q k)
    qed
  qed
  moreover have "distinct (map fst xs)" using Cons.prems(2) by simp
  ultimately have "xs = ys'" using Cons.IH k(2) by blast
  then show ?case by (simp add: ys p q k v)
qed

lemma keys_fold_update:
  "set (map fst E) \<subseteq> set (map fst S) \<Longrightarrow> map fst (fold (\<lambda>(k, v). AList.update k v) E S) = map fst S"
proof (induction E arbitrary: S)
  case Nil
  show ?case by simp
next
  case (Cons p E)
  obtain k v where p: "p = (k, v)" by (cases p)
  from Cons.prems have "map fst (AList.update k v S) = map fst S" by (simp add: p update_keys)
  with Cons.IH[of "AList.update k v S"] Cons.prems show ?case by (simp add: p)
qed

lemma map_of_fold_update:
  "distinct (map fst E) \<Longrightarrow>
   map_of (fold (\<lambda>(k, v). AList.update k v) E S) x =
     (case map_of E x of Some v \<Rightarrow> Some v | None \<Rightarrow> map_of S x)"
proof (induction E arbitrary: S)
  case Nil
  show ?case by simp
next
  case (Cons p E)
  obtain k v where p: "p = (k, v)" by (cases p)
  from Cons.prems have d: "distinct (map fst E)" and n: "map_of E k = None"
    by (auto simp: p map_of_eq_None_iff)
  show ?case using Cons.IH[OF d, of "AList.update k v S"] n
    by (auto simp: p update_conv' split: option.splits)
qed

lemma fold_update_same_keys:
  assumes "map fst E = map fst S" "distinct (map fst S)"
  shows "fold (\<lambda>(k, v). AList.update k v) E S = E"
proof (rule alist_eqI)
  show k: "map fst (fold (\<lambda>(k, v). AList.update k v) E S) = map fst E"
    using keys_fold_update[of E S] assms(1) by simp
  show "distinct (map fst (fold (\<lambda>(k, v). AList.update k v) E S))" using k assms by simp
  show "map_of (fold (\<lambda>(k, v). AList.update k v) E S) = map_of E"
  proof
    fix x
    have d: "distinct (map fst E)" using assms by simp
    show "map_of (fold (\<lambda>(k, v). AList.update k v) E S) x = map_of E x"
    proof (cases "map_of E x")
      case None
      then have "x \<notin> fst ` set S" using assms(1) by (metis map_of_eq_None_iff set_map)
      then have "map_of S x = None" by (simp add: map_of_eq_None_iff)
      with None show ?thesis by (simp add: map_of_fold_update[OF d])
    next
      case (Some v)
      then show ?thesis by (simp add: map_of_fold_update[OF d])
    qed
  qed
qed

lemma dict_update_extends:
  assumes "map fst E0 = map fst S" "distinct (map fst (E0 @ N))"
  shows "dict_update S (E0 @ N) = E0 @ N"
proof -
  have "distinct (map fst S)" using assms by simp
  then have "fold (\<lambda>(k, v). AList.update k v) E0 S = E0"
    using assms(1) by (rule fold_update_same_keys[rotated])
  then show ?thesis using fold_update_append[OF assms(2)] by (simp add: dict_update_def)
qed

section \<open>Loading what was saved\<close>

lemma register_song_index:
  "uri_to_song_id (register_song sid md m) =
     (if track_uri md \<noteq> [] then AList.update (track_uri md) sid (uri_to_song_id m)
      else uri_to_song_id m)"
  "name_artist_to_song_id (register_song sid md m) =
     (case name_artist_key md of
        Some k \<Rightarrow> AList.update k sid (name_artist_to_song_id m)
      | None \<Rightarrow> name_artist_to_song_id m)"
  by (simp_all add: register_song_def name_artist_key_def Let_def)

lemma load_song_fields:
  "existing_songs (load_song (sid, info) m) = AList.update sid info (existing_songs m)"
  "uri_to_song_id (load_song (sid, info) m) =
     (if track_uri (metadata info) \<noteq> []
      then AList.update (track_uri (metadata info)) sid (uri_to_song_id m)
      else uri_to_song_id m)"
  "name_artist_to_song_id (load_song (sid, info) m) =
     (case name_artist_key (metadata info) of
        Some k \<Rightarrow> AList.update k sid (name_artist_to_song_id m)
      | None \<Rightarrow> name_artist_to_song_id m)"
  by (simp_all add: load_song_def register_song_index split: option.splits)

lemma fold_load_songs:
  "existing_songs (fold load_song E m) = fold (\<lambda>(k, v). AList.update k v) E (existing_songs m)"
proof (induction E arbitrary: m)
  case Nil
  show ?case by simp
next
  case (Cons e E)
  obtain sid info where e: "e = (sid, info)" by (cases e)
  show ?case by (simp add: e Cons.IH load_song_fields)
qed

lemma load_songs_distinct:
  "distinct (map fst E) \<Longrightarrow> existing_songs (fold load_song E new_song_manager) = E"
  using fold_update_append[of "[]" E] by (simp add: fold_load_songs new_song_manager_def)

lemma fold_load_index_cong:
  assumes "map (\<lambda>(k, v). (k, metadata v)) E = map (\<lambda>(k, v). (k, metadata v)) E'"
    and "uri_to_song_id m = uri_to_song_id m'"
    and "name_artist_to_song_id m = name_artist_to_song_id m'"
  shows "uri_to_song_id (fold load_song E m) = uri_to_song_id (fold load_song E' m') \<and>
         name_artist_to_song_id (fold load_song E m) = name_artist_to_song_id (fold load_song E' m')"
  using assms
proof (induction E arbitrary: E' m m')
  case Nil
  then show ?case by simp
next
  case (Cons e E)
  from Cons.prems(1) obtain e' E2 where E': "E' = e' # E2" by (cases E') auto
  obtain sid info where e: "e = (sid, info)" by (cases e)
  obtain sid' info' where e': "e' = (sid', info')" by (cases e')
  from Cons.prems(1) have h: "sid' = sid" "metadata info' = metadata info"
    "map (\<lambda>(k, v). (k, metadata v)) E = map (\<lambda>(k, v). (k, metadata v)) E2"
    by (simp_all add: E' e e')
  have a: "uri_to_song_id (load_song e m) = uri_to_song_id (load_song e' m')"
    "name_artist_to_song_id (load_song e m) = name_artist_to_song_id (load_song e' m')"
    using Cons.prems(2,3) by (simp_all add: e e' h load_song_fields split: option.splits)
  show ?case unfolding E' using Cons.IH[OF h(3) a] by simp
qed

lemma update_same_metadata:
  "map_of E sid = Some v \<Longrightarrow> metadata v' = metadata v \<Longrightarrow>
   map (\<lambda>(k, v). (k, metadata v)) (AList.update sid v' E) = map (\<lambda>(k, v). (k, metadata v)) E"
  by (induction E) (auto split: if_splits)

lemma update_keys_known:
  "map_of E sid = Some v \<Longrightarrow> map fst (AList.update sid v' E) = map fst E"
  by (induction E) (auto split: if_splits)

text \<open>
  A song manager with distinct keys that loading its own song table gives back: the
  look-up tables are those that a load of the song table builds.
\<close>

lemma reload_after_load:
  assumes "distinct (map fst S)"
  shows "distinct (map fst (existing_songs (fold load_song S new_song_manager))) \<and>
         fold load_song (existing_songs (fold load_song S new_song_manager)) new_song_manager =
           fold load_song S new_song_manager"
  by (simp add: load_songs_distinct[OF assms] assms)

lemma reload_after_add:
  assumes "distinct (map fst (existing_songs m))"
    and "fold load_song (existing_songs m) new_song_manager = m"
  shows "distinct (map fst (existing_songs (fst (add_song_to_playlist now pname sid track res (m, ps))))) \<and>
         fold load_song (existing_songs (fst (add_song_to_playlist now pname sid track res (m, ps))))
           new_song_manager = fst (add_song_to_playlist now pname sid track res (m, ps))"
proof (cases "map_of (existing_songs m) sid")
  case None
  let ?ni = "\<lparr>info_song_id = sid,
                  info_filename = path_name (get_consolidated_song_path sid ''.mp3''),
                  original_filename = filename res,
                  file_path = path_str (get_consolidated_song_path sid ''.mp3''),
                  metadata = track, playlists = [pname], added_at = now, last_updated = now,
                  song_download_info =
                    \<lparr>info_video_title = video_title res, info_search_query = search_query res,
                     download_status = status res, downloaded_at = now\<rparr>\<rparr>"
  from None have nk: "sid \<notin> fst ` set (existing_songs m)" by (simp add: map_of_eq_None_iff)
  have u: "AList.update sid ?ni (existing_songs m) = existing_songs m @ [(sid, ?ni)]"
    by (rule update_new_key[OF nk])
  have r: "fst (add_song_to_playlist now pname sid track res (m, ps)) =
             register_song sid track (m\<lparr>existing_songs := existing_songs m @ [(sid, ?ni)]\<rparr>)"
    by (simp add: add_new[OF None] u)
  have d: "distinct (map fst (existing_songs m @ [(sid, ?ni)]))" using assms(1) nk by simp
  have "fold load_song (existing_songs m @ [(sid, ?ni)]) new_song_manager = load_song (sid, ?ni) m"
    by (simp add: assms(2))
  also have "\<dots> = register_song sid track (m\<lparr>existing_songs := existing_songs m @ [(sid, ?ni)]\<rparr>)"
    by (simp add: load_song_def u)
  finally show ?thesis unfolding r using d by simp
next
  case (Some found)
  show ?thesis
  proof (cases "pname \<in> set (playlists found)")
    case True
    then show ?thesis using assms by (simp add: add_existing[OF Some])
  next
    case False
    let ?f = "found\<lparr>playlists := playlists found @ [pname], last_updated := now\<rparr>"
    let ?E = "AList.update sid ?f (existing_songs m)"
    have r: "fst (add_song_to_playlist now pname sid track res (m, ps)) = m\<lparr>existing_songs := ?E\<rparr>"
      using False by (simp add: add_existing[OF Some])
    have k: "map fst ?E = map fst (existing_songs m)" by (rule update_keys_known[OF Some])
    have d: "distinct (map fst ?E)" using assms(1) k by simp
    have md: "map (\<lambda>(k, v). (k, metadata v)) ?E = map (\<lambda>(k, v). (k, metadata v)) (existing_songs m)"
      by (rule update_same_metadata[OF Some]) simp
    have i: "uri_to_song_id (fold load_song ?E new_song_manager) = uri_to_song_id m"
      "name_artist_to_song_id (fold load_song ?E new_song_manager) = name_artist_to_song_id m"
      using fold_load_index_cong[OF md refl refl, of new_song_manager] assms(2) by simp_all
    have s: "existing_songs (fold load_song ?E new_song_manager) = ?E"
      by (rule load_songs_distinct[OF d])
    have "fold load_song ?E new_song_manager = m\<lparr>existing_songs := ?E\<rparr>"
      using i s by (intro song_manager.equality) simp_all
    then show ?thesis unfolding r using d by simp
  qed
qed

lemma reload_after_upserts:
  assumes "distinct (map fst (existing_songs m))"
    and "fold load_song (existing_songs m) new_song_manager = m"
  shows "distinct (map fst (existing_songs (upserts ups m))) \<and>
         fold load_song (existing_songs (upserts ups m)) new_song_manager = upserts ups m"
  using assms
proof (induction ups arbitrary: m)
  case Nil
  then show ?case by simp
next
  case (Cons up ups)
  obtain now pname sid track res where up: "up = (now, pname, sid, track, res)"
    by (cases up) auto
  note a = reload_after_add[OF Cons.prems, of now pname sid track res "[]"]
  show ?case unfolding up upserts_Cons by (rule Cons.IH[OF conjunct1[OF a] conjunct2[OF a]])
qed

text \<open>Upserts add keys at the end of the song table.\<close>

lemma add_song_keys:
  "map fst (existing_songs (fst (add_song_to_playlist now pname sid track res (m, ps)))) =
     (if sid \<in> fst ` set (existing_songs m) then map fst (existing_songs m)
      else map fst (existing_songs m) @ [sid])"
proof (cases "map_of (existing_songs m) sid")
  case None
  then have nk: "sid \<notin> fst ` set (existing_songs m)" by (simp add: map_of_eq_None_iff)
  then show ?thesis by (simp add: add_new[OF None] update_new_key)
next
  case (Some found)
  then have k: "sid \<in> fst ` set (existing_songs m)"
    by (metis domI dom_map_of_conv_image_fst)
  then show ?thesis by (simp add: add_existing[OF Some] update_keys_known[OF Some])
qed

lemma upserts_keys: "\<exists>ks. map fst (existing_songs (upserts ups m)) = map fst (existing_songs m) @ ks"
proof (induction ups arbitrary: m)
  case Nil
  show ?case by simp
next
  case (Cons up ups)
  obtain now pname sid track res where up: "up = (now, pname, sid, track, res)"
    by (cases up) auto
  let ?m = "fst (add_song_to_playlist now pname sid track res (m, []))"
  from Cons.IH[of ?m] obtain ks where
    "map fst (existing_songs (upserts ups ?m)) = map fst (existing_songs ?m) @ ks" by blast
  then show ?case unfolding up upserts_Cons by (simp add: add_song_keys)
qed

lemma dict_update_prefix:
  assumes "map fst E = map fst S @ ks" "distinct (map fst E)"
  shows "dict_update S E = E"
proof -
  let ?n = "length S"
  have a: "map fst (take ?n E) = map fst S"
    using assms(1) by (simp add: take_map[symmetric])
  have "distinct (map fst (take ?n E @ drop ?n E))" using assms(2) by simp
  from dict_update_extends[OF a this] show ?thesis by simp
qed

section \<open>Songs that list a playlist\<close>

lemma lists_add_self:
  "lists_playlist pname (fst (add_song_to_playlist now pname sid track res (m, ps))) sid"
proof (cases "map_of (existing_songs m) sid")
  case None
  show ?thesis by (simp add: lists_playlist_def add_new[OF None] update_conv')
next
  case (Some found)
  show ?thesis by (simp add: lists_playlist_def add_existing[OF Some] update_conv' Some)
qed

lemma lists_add_mono:
  assumes "lists_playlist pname m k"
  shows "lists_playlist pname (fst (add_song_to_playlist now pname' sid track res (m, ps))) k"
proof (cases "map_of (existing_songs m) sid")
  case None
  with assms have "k \<noteq> sid" by (auto simp: lists_playlist_def)
  with assms show ?thesis by (simp add: lists_playlist_def add_new[OF None] update_conv')
next
  case (Some found)
  with assms show ?thesis
    by (auto simp: lists_playlist_def add_existing[OF Some] update_conv' split: option.splits)
qed

lemma lists_upserts_mono:
  "lists_playlist pname m k \<Longrightarrow> lists_playlist pname (upserts ups m) k"
proof (induction ups arbitrary: m)
  case Nil
  then show ?case by simp
next
  case (Cons up ups)
  obtain now pname' sid track res where up: "up = (now, pname', sid, track, res)"
    by (cases up) auto
  show ?case unfolding up upserts_Cons by (rule Cons.IH[OF lists_add_mono[OF Cons.prems]])
qed

lemma lists_upserts_all:
  assumes "(now, pname, sid, track, res) \<in> set ups"
  shows "lists_playlist pname (upserts ups m) sid"
  using assms
proof (induction ups arbitrary: m)
  case Nil
  then show ?case by simp
next
  case (Cons up ups)
  obtain now' pname' sid' track' res' where up: "up = (now', pname', sid', track', res')"
    by (cases up) auto
  let ?m = "fst (add_song_to_playlist now' pname' sid' track' res' (m, []))"
  from Cons.prems have "up = (now, pname, sid, track, res) \<or> (now, pname, sid, track, res) \<in> set ups"
    by auto
  then show ?case
  proof
    assume "up = (now, pname, sid, track, res)"
    then have "lists_playlist pname ?m sid" using lists_add_self[of pname now sid track res m "[]"]
      by (simp add: up)
    then show ?thesis unfolding up upserts_Cons by (rule lists_upserts_mono)
  next
    assume "(now, pname, sid, track, res) \<in> set ups"
    then show ?thesis unfolding up upserts_Cons by (rule Cons.IH)
  qed
qed

lemma add_listed_song:
  assumes "lists_playlist pname m sid"
  shows "fst (add_song_to_playlist now pname sid track res (m, ps)) = m"
proof -
  from assms obtain found where f: "map_of (existing_songs m) sid = Some found"
    "pname \<in> set (playlists found)"
    by (auto simp: lists_playlist_def split: option.splits)
  show ?thesis by (simp add: add_existing[OF f(1)] f(2))
qed

lemma upserts_listed_songs:
  "\<forall>(now, p, s, t, r) \<in> set ups. lists_playlist p m s \<Longrightarrow> upserts ups m = m"
proof (induction ups)
  case Nil
  show ?case by simp
next
  case (Cons up ups)
  obtain now pname sid track res where up: "up = (now, pname, sid, track, res)"
    by (cases up) auto
  from Cons.prems have a: "lists_playlist pname m sid"
    and b: "\<forall>(now, p, s, t, r) \<in> set ups. lists_playlist p m s" by (auto simp: up)
  show ?case unfolding up upserts_Cons add_listed_song[OF a] by (rule Cons.IH[OF b])
qed

lemma index_grows_refl: "index_grows pname m m"
  by (simp add: index_grows_def)

lemma grows_map_update:
  assumes "\<forall>u. M u = None \<longrightarrow> M0 u = None"
    and "\<forall>u s. M u = Some s \<longrightarrow> M0 u = Some s \<or> Q s"
    and "Q sid"
  shows "(\<forall>u. (M(k \<mapsto> sid)) u = None \<longrightarrow> M0 u = None) \<and>
         (\<forall>u s. (M(k \<mapsto> sid)) u = Some s \<longrightarrow> M0 u = Some s \<or> Q s)"
proof (intro conjI allI impI)
  fix u assume "(M(k \<mapsto> sid)) u = None"
  then have "M u = None" by (simp split: if_splits)
  with assms(1) show "M0 u = None" by simp
next
  fix u s assume h: "(M(k \<mapsto> sid)) u = Some s"
  show "M0 u = Some s \<or> Q s"
  proof (cases "u = k")
    case True
    with h have "s = sid" by simp
    with assms(3) show ?thesis by simp
  next
    case False
    with h have "M u = Some s" by simp
    with assms(2) show ?thesis by blast
  qed
qed

lemma index_grows_add:
  assumes "index_grows pname m0 m" "sid \<noteq> []"
  shows "index_grows pname m0 (fst (add_song_to_playlist now pname sid track res (m, ps)))"
proof -
  let ?m' = "fst (add_song_to_playlist now pname sid track res (m, ps))"
  let ?Q = "\<lambda>s. s \<noteq> [] \<and> lists_playlist pname m s"
  let ?Q' = "\<lambda>s. s \<noteq> [] \<and> lists_playlist pname ?m' s"
  have self: "?Q' sid" using assms(2) by (simp add: lists_add_self)
  have mono: "?Q s \<Longrightarrow> ?Q' s" for s by (simp add: lists_add_mono)
  from assms(1) have
    a: "\<forall>u. map_of (uri_to_song_id m) u = None \<longrightarrow> map_of (uri_to_song_id m0) u = None"
    and b: "\<forall>u s. map_of (uri_to_song_id m) u = Some s \<longrightarrow> map_of (uri_to_song_id m0) u = Some s \<or> ?Q s"
    and c: "\<forall>k. map_of (name_artist_to_song_id m) k = None \<longrightarrow>
         map_of (name_artist_to_song_id m0) k = None"
    and d: "\<forall>k s. map_of (name_artist_to_song_id m) k = Some s \<longrightarrow>
         map_of (name_artist_to_song_id m0) k = Some s \<or> ?Q s"
    by (simp_all add: index_grows_def)
  have b': "\<forall>u s. map_of (uri_to_song_id m) u = Some s \<longrightarrow> map_of (uri_to_song_id m0) u = Some s \<or> ?Q' s"
    using b mono by blast
  have d': "\<forall>k s. map_of (name_artist_to_song_id m) k = Some s \<longrightarrow>
         map_of (name_artist_to_song_id m0) k = Some s \<or> ?Q' s"
    using d mono by blast
  have U: "(\<forall>u. map_of (uri_to_song_id ?m') u = None \<longrightarrow> map_of (uri_to_song_id m0) u = None) \<and>
           (\<forall>u s. map_of (uri_to_song_id ?m') u = Some s \<longrightarrow>
              map_of (uri_to_song_id m0) u = Some s \<or> ?Q' s)"
  proof (cases "map_of (existing_songs m) sid")
    case None
    have u: "map_of (uri_to_song_id ?m') =
       (if track_uri track \<noteq> [] then (map_of (uri_to_song_id m))(track_uri track \<mapsto> sid)
        else map_of (uri_to_song_id m))"
      by (simp add: add_new[OF None] register_song_uri)
    show ?thesis
    proof (cases "track_uri track \<noteq> []")
      case True
      then have "map_of (uri_to_song_id ?m') = (map_of (uri_to_song_id m))(track_uri track \<mapsto> sid)"
        using u by simp
      then show ?thesis using grows_map_update[OF a b' self, of "track_uri track"] by (simp only:)
    next
      case False
      then have "map_of (uri_to_song_id ?m') = map_of (uri_to_song_id m)" using u by simp
      then show ?thesis using a b' by simp
    qed
  next
    case (Some found)
    have "uri_to_song_id ?m' = uri_to_song_id m" by (simp add: add_existing[OF Some])
    then show ?thesis using a b' by simp
  qed
  have N: "(\<forall>k. map_of (name_artist_to_song_id ?m') k = None \<longrightarrow>
              map_of (name_artist_to_song_id m0) k = None) \<and>
           (\<forall>k s. map_of (name_artist_to_song_id ?m') k = Some s \<longrightarrow>
              map_of (name_artist_to_song_id m0) k = Some s \<or> ?Q' s)"
  proof (cases "map_of (existing_songs m) sid")
    case None
    have n: "map_of (name_artist_to_song_id ?m') =
       (case name_artist_key track of
          Some k \<Rightarrow> (map_of (name_artist_to_song_id m))(k \<mapsto> sid)
        | None \<Rightarrow> map_of (name_artist_to_song_id m))"
      by (simp add: add_new[OF None] register_song_key split: option.splits)
    show ?thesis
    proof (cases "name_artist_key track")
      case (Some k)
      then have "map_of (name_artist_to_song_id ?m') = (map_of (name_artist_to_song_id m))(k \<mapsto> sid)"
        using n by simp
      then show ?thesis using grows_map_update[OF c d' self, of k] by (simp only:)
    next
      case None
      then have "map_of (name_artist_to_song_id ?m') = map_of (name_artist_to_song_id m)"
        using n by simp
      then show ?thesis using c d' by simp
    qed
  next
    case (Some found)
    have "name_artist_to_song_id ?m' = name_artist_to_song_id m" by (simp add: add_existing[OF Some])
    then show ?thesis using c d' by simp
  qed
  show ?thesis unfolding index_grows_def using U N by blast
qed

lemma index_grows_upserts:
  assumes "index_grows pname m0 m"
    and "\<forall>(now, p, s, t, r) \<in> set ups. p = pname \<and> s \<noteq> []"
  shows "index_grows pname m0 (upserts ups m)"
  using assms
proof (induction ups arbitrary: m)
  case Nil
  then show ?case by simp
next
  case (Cons up ups)
  obtain now p sid track res where up: "up = (now, p, sid, track, res)"
    by (cases up) auto
  from Cons.prems(2) have h: "p = pname" "sid \<noteq> []"
    "\<forall>(now, p, s, t, r) \<in> set ups. p = pname \<and> s \<noteq> []" by (auto simp: up)
  show ?case unfolding up upserts_Cons h(1)
    by (rule Cons.IH[OF index_grows_add[OF Cons.prems(1) h(2)] h(3)])
qed

lemma found_id_grows:
  assumes "index_grows pname m0 m"
  shows "found_id m p = None \<Longrightarrow> found_id m0 p = None"
    and "found_id m p = Some s \<Longrightarrow> found_id m0 p = Some s \<or> (s \<noteq> [] \<and> lists_playlist pname m s)"
proof -
  from assms have
    a: "\<And>u. map_of (uri_to_song_id m) u = None \<Longrightarrow> map_of (uri_to_song_id m0) u = None"
    and b: "\<And>u s. map_of (uri_to_song_id m) u = Some s \<Longrightarrow>
         map_of (uri_to_song_id m0) u = Some s \<or> (s \<noteq> [] \<and> lists_playlist pname m s)"
    and c: "\<And>k. map_of (name_artist_to_song_id m) k = None \<Longrightarrow>
         map_of (name_artist_to_song_id m0) k = None"
    and d: "\<And>k s. map_of (name_artist_to_song_id m) k = Some s \<Longrightarrow>
         map_of (name_artist_to_song_id m0) k = Some s \<or> (s \<noteq> [] \<and> lists_playlist pname m s)"
    by (simp_all add: index_grows_def)
  show "found_id m0 p = None" if "found_id m p = None"
    using that a[of "track_uri p"] c
    by (auto simp: found_id_def split: option.splits if_splits)
  show "found_id m0 p = Some s \<or> (s \<noteq> [] \<and> lists_playlist pname m s)" if "found_id m p = Some s"
  proof (cases "track_uri p \<noteq> [] \<and> map_of (uri_to_song_id m) (track_uri p) \<noteq> None")
    case True
    with that have "map_of (uri_to_song_id m) (track_uri p) = Some s"
      by (auto simp: found_id_def split: option.splits)
    from b[OF this] True show ?thesis by (auto simp: found_id_def)
  next
    case False
    then have u0: "(if track_uri p \<noteq> [] then map_of (uri_to_song_id m0) (track_uri p) else None) = None"
      using a[of "track_uri p"] by auto
    from False have u1: "(if track_uri p \<noteq> [] then map_of (uri_to_song_id m) (track_uri p) else None) = None"
      by auto
    from that obtain k where k: "name_artist_key p = Some k" "map_of (name_artist_to_song_id m) k = Some s"
      by (auto simp: found_id_def u1 split: option.splits)
    from d[OF k(2)] show ?thesis by (auto simp: found_id_def u0 k(1))
  qed
qed

lemma resolve_track_id:
  assumes "catalog_ok m"
  shows "\<exists>t. resolve_track m p = Inr t \<and> song_id t \<noteq> [] \<and>
           song_id t = (case found_id m p of
                          Some s \<Rightarrow> if s = [] then generate_song_id (track_name p) (artists_string p)
                                    else s
                        | None \<Rightarrow> generate_song_id (track_name p) (artists_string p))"
proof (cases "found_id m p")
  case None
  then have "find_existing_song m p = Inr None"
    by (simp add: find_existing_song_eq found_id_def)
  then show ?thesis
    by (simp add: resolve_track_def ENABLE_SMART_DEDUPLICATION_def Let_def None)
next
  case (Some s)
  then have "s \<in> fst ` set (existing_songs m)"
    using assms by (auto simp: found_id_def catalog_ok_def split: option.splits if_splits)
  then obtain found where "map_of (existing_songs m) s = Some found"
    by (metis domD dom_map_of_conv_image_fst)
  with Some have "find_existing_song m p = Inr (Some (s, found))"
    by (simp add: find_existing_song_eq found_id_def)
  then show ?thesis
    by (simp add: resolve_track_def ENABLE_SMART_DEDUPLICATION_def Let_def Some)
qed

lemma extract_item_Some:
  "fst (extract_item m item) = Some t \<longleftrightarrow>
   valid_item item \<and> resolve_track m (item_record item) = Inr t"
  by (cases item)
     (auto simp: extract_item_def valid_item_def item_record_def Let_def SKIP_INVALID_TRACKS_def
           split: sum.splits)

lemma extract_tracks_set:
  "t \<in> set (fst (extract_enhanced_track_info m items)) \<longleftrightarrow>
   (\<exists>item \<in> set items. valid_item item \<and> resolve_track m (item_record item) = Inr t)"
proof (induction items)
  case Nil
  show ?case by (simp add: extract_nil)
next
  case (Cons item items)
  have "t \<in> set (case fst (extract_item m item) of None \<Rightarrow> [] | Some t \<Rightarrow> [t]) \<longleftrightarrow>
        fst (extract_item m item) = Some t"
    by (cases "fst (extract_item m item)") auto
  then show ?case using Cons.IH by (simp add: extract_cons extract_item_Some)
qed

section \<open>A job run twice\<close>

lemma rebuild_mapping_known:
  "\<forall>(k, v) \<in> set S. playlists v \<noteq> [] \<longrightarrow> map_of M k = Some (playlists v) \<Longrightarrow>
   rebuild_mapping S M = M"
proof (induction S)
  case Nil
  show ?case by (simp add: rebuild_mapping_def)
next
  case (Cons e S)
  obtain k v where e: "e = (k, v)" by (cases e)
  from Cons.prems have h: "playlists v \<noteq> [] \<longrightarrow> map_of M k = Some (playlists v)"
    and r: "\<forall>(k, v) \<in> set S. playlists v \<noteq> [] \<longrightarrow> map_of M k = Some (playlists v)"
    by (auto simp: e)
  have "(if playlists v \<noteq> [] then AList.update k (playlists v) M else M) = M"
    using h by (simp add: update_triv)
  then have "rebuild_mapping (e # S) M = rebuild_mapping S M"
    by (simp add: rebuild_mapping_def e)
  with Cons.IH[OF r] show ?case by simp
qed

lemma rebuild_mapping_again:
  assumes "distinct (map fst S)"
  shows "rebuild_mapping S (rebuild_mapping S M) = rebuild_mapping S M"
proof (rule rebuild_mapping_known, clarify)
  fix k v assume kv: "(k, v) \<in> set S" and ne: "playlists v \<noteq> []"
  from kv assms have "map_of S k = Some v" by simp
  then show "map_of (rebuild_mapping S M) k = Some (playlists v)"
    using ne by (simp add: rebuild_mapping_lookup[OF assms])
qed

text \<open>
  When a job is run again on the song manager it left, every track it extracts is resolved
  to a song that already lists the playlist.
\<close>

lemma second_run_tracks:
  assumes ok: "catalog_ok m0"
    and u1: "map (\<lambda>(now, p, s, t, r). (p, s, t)) ups1 =
               map (\<lambda>t. (pname, song_id t, t)) (fst (extract_enhanced_track_info m0 items))"
    and t2: "t2 \<in> set (fst (extract_enhanced_track_info (upserts ups1 m0) items))"
  shows "lists_playlist pname (upserts ups1 m0) (song_id t2)"
proof -
  let ?m1 = "upserts ups1 m0"
  let ?tracks1 = "fst (extract_enhanced_track_info m0 items)"
  have ok1: "catalog_ok ?m1" by (rule catalog_ok_upserts[OF ok])
  from t2 obtain item where item: "item \<in> set items" "valid_item item"
    and r2: "resolve_track ?m1 (item_record item) = Inr t2"
    by (auto simp: extract_tracks_set)
  let ?p = "item_record item"
  let ?g = "generate_song_id (track_name ?p) (artists_string ?p)"
  from resolve_track_id[OF ok, of ?p] obtain t1 where r1: "resolve_track m0 ?p = Inr t1"
    and id1: "song_id t1 = (case found_id m0 ?p of Some s \<Rightarrow> if s = [] then ?g else s | None \<Rightarrow> ?g)"
    by blast
  from resolve_track_id[OF ok1, of ?p] r2 have
    id2: "song_id t2 = (case found_id ?m1 ?p of Some s \<Rightarrow> if s = [] then ?g else s | None \<Rightarrow> ?g)"
    by auto
  have in1: "t1 \<in> set ?tracks1" using item r1 by (auto simp: extract_tracks_set)
  then have "(pname, song_id t1, t1) \<in> set (map (\<lambda>(now, p, s, t, r). (p, s, t)) ups1)"
    unfolding u1 by auto
  then obtain now r where "(now, pname, song_id t1, t1, r) \<in> set ups1" by auto
  then have l1: "lists_playlist pname ?m1 (song_id t1)" by (rule lists_upserts_all)
  have ids: "\<forall>(now, p, s, t, r) \<in> set ups1. p = pname \<and> s \<noteq> []"
  proof (clarify)
    fix now p s t r assume "(now, p, s, t, r) \<in> set ups1"
    then have "(p, s, t) \<in> set (map (\<lambda>(now, p, s, t, r). (p, s, t)) ups1)" by force
    then have "(p, s, t) \<in> set (map (\<lambda>t. (pname, song_id t, t)) ?tracks1)" unfolding u1 .
    then have e: "p = pname" "s = song_id t" "t \<in> set ?tracks1" by auto
    from e(3) obtain item' where "resolve_track m0 (item_record item') = Inr t"
      by (auto simp: extract_tracks_set)
    with resolve_track_id[OF ok, of "item_record item'"] have "song_id t \<noteq> []" by auto
    with e show "p = pname \<and> s \<noteq> []" by simp
  qed
  have g: "index_grows pname m0 ?m1"
    by (rule index_grows_upserts[OF index_grows_refl ids])
  show ?thesis
  proof (cases "found_id ?m1 ?p")
    case None
    with found_id_grows(1)[OF g] have "found_id m0 ?p = None" by simp
    with None id1 id2 have "song_id t2 = song_id t1" by simp
    with l1 show ?thesis by simp
  next
    case (Some s)
    from found_id_grows(2)[OF g Some] show ?thesis
    proof
      assume "found_id m0 ?p = Some s"
      with Some id1 id2 have "song_id t2 = song_id t1" by simp
      with l1 show ?thesis by simp
    next
      assume "s \<noteq> [] \<and> lists_playlist pname ?m1 s"
      with Some id2 show ?thesis by simp
    qed
  qed
qed

lemma mapping_after_save_eq:
  "song_playlist_mapping (save_consolidated_metadata mgr pname pmeta d) =
     Some (rebuild_mapping (dict_update (table (songs_database d)) (existing_songs mgr))
             (table (song_playlist_mapping d)))"
  by (simp add: save_consolidated_metadata_def Let_def)

text \<open>
  A never-cancelled job run on a song manager that is what a load of the files gives, and
  run again on what a load of the files it left gives, from the same captured items.
\<close>

lemma job_twice:
  assumes d: "distinct (map fst (table (songs_database d)))"
    and ev: "snd (capture_requests (events env2) ([], [])) = snd (capture_requests (events env1) ([], []))"
    and p1: "process_single_playlist env1 None a1 pname url
               \<lparr>song_mgr = load_existing_database d, files = d, reads = n1,
                skipped_tracks_log = l1, download_results = r1\<rparr> = (jr1, w1)"
    and p2: "process_single_playlist env2 None a2 pname url
               \<lparr>song_mgr = load_existing_database (files w1), files = files w1, reads = n2,
                skipped_tracks_log = l2, download_results = r2\<rparr> = (jr2, w2)"
  shows "songs_database (files w2) = songs_database (files w1) \<and>
         song_playlist_mapping (files w2) = song_playlist_mapping (files w1)"
proof -
  let ?S0 = "table (songs_database d)"
  let ?m0 = "load_existing_database d"
  let ?items = "snd (capture_requests (events env1) ([], []))"
  let ?tracks1 = "fst (extract_enhanced_track_info ?m0 ?items)"
  have m0: "?m0 = fold load_song ?S0 new_song_manager" by (simp add: load_existing_database_def)
  have s0: "existing_songs ?m0 = ?S0" unfolding m0 by (rule load_songs_distinct[OF d])
  have rl0: "distinct (map fst (existing_songs ?m0))"
    "fold load_song (existing_songs ?m0) new_song_manager = ?m0"
    using reload_after_load[OF d] by (simp_all add: m0)
  note n1 = process_never_cancelled[OF p1, of ?tracks1, simplified]
  show ?thesis
  proof (cases "?tracks1 = []")
    case True
    with n1 have f1: "files w1 = d" by simp
    have "fst (extract_enhanced_track_info (load_existing_database (files w1))
                 (snd (capture_requests (events env2) ([], [])))) = []"
      using True by (simp add: f1 ev)
    with process_never_cancelled[OF p2 refl] have "files w2 = files w1" by simp
    then show ?thesis by simp
  next
    case False
    with n1 obtain ups1 pmeta1 where
      u1: "map (\<lambda>(now, p, s, t, r). (p, s, t)) ups1 = map (\<lambda>t. (pname, song_id t, t)) ?tracks1"
      and sm1: "song_mgr w1 = upserts ups1 ?m0"
      and f1: "files w1 = save_consolidated_metadata (song_mgr w1) pname pmeta1 d"
      by blast
    let ?m1 = "upserts ups1 ?m0"
    let ?E1 = "existing_songs ?m1"
    note rl1 = reload_after_upserts[OF rl0, of ups1]
    from upserts_keys[of ups1 ?m0] obtain ks where
      ks: "map fst ?E1 = map fst ?S0 @ ks" by (auto simp: s0)
    have sd1: "songs_database (files w1) = Some ?E1"
      unfolding f1 sm1 songs_after_save
      by (simp add: dict_update_prefix[OF ks conjunct1[OF rl1]])
    have ld1: "load_existing_database (files w1) = ?m1"
      using conjunct2[OF rl1] by (simp add: load_existing_database_def sd1 table_def)
    let ?tracks2 = "fst (extract_enhanced_track_info ?m1 ?items)"
    have tr2: "?tracks2 = fst (extract_enhanced_track_info (song_mgr
               \<lparr>song_mgr = load_existing_database (files w1), files = files w1, reads = n2,
                skipped_tracks_log = l2, download_results = r2\<rparr>)
               (snd (capture_requests (events env2) ([], []))))"
      by (simp add: ld1 ev)
    note n2 = process_never_cancelled[OF p2 tr2, simplified]
    show ?thesis
    proof (cases "?tracks2 = []")
      case True
      with n2 have "files w2 = files w1" by simp
      then show ?thesis by simp
    next
      case ne2: False
      with n2 obtain ups2 pmeta2 where
        u2: "map (\<lambda>(now, p, s, t, r). (p, s, t)) ups2 = map (\<lambda>t. (pname, song_id t, t)) ?tracks2"
        and sm2: "song_mgr w2 = upserts ups2 (load_existing_database (files w1))"
        and f2: "files w2 = save_consolidated_metadata (song_mgr w2) pname pmeta2 (files w1)"
        by blast
      have ok0: "catalog_ok ?m0" by (rule catalog_ok_load)
      have all2: "\<forall>(now, p, s, t, r) \<in> set ups2. lists_playlist p ?m1 s"
      proof (clarify)
        fix now p s t r assume "(now, p, s, t, r) \<in> set ups2"
        then have "(p, s, t) \<in> set (map (\<lambda>(now, p, s, t, r). (p, s, t)) ups2)" by force
        then have "(p, s, t) \<in> set (map (\<lambda>t. (pname, song_id t, t)) ?tracks2)" unfolding u2 .
        then have e: "p = pname" "s = song_id t" "t \<in> set ?tracks2" by auto
        from second_run_tracks[OF ok0 u1 e(3)] e show "lists_playlist p ?m1 s" by simp
      qed
      have m2: "song_mgr w2 = ?m1" unfolding sm2 ld1 by (rule upserts_listed_songs[OF all2])
      have same: "dict_update ?E1 ?E1 = ?E1"
        by (rule dict_update_prefix[where ks="[]"]) (simp_all add: conjunct1[OF rl1])
      have a: "songs_database (files w2) = Some ?E1"
        unfolding f2 m2 songs_after_save by (simp add: sd1 table_def same)
      have mp1: "song_playlist_mapping (files w1) =
                   Some (rebuild_mapping ?E1 (table (song_playlist_mapping d)))"
        unfolding f1 sm1 mapping_after_save_eq
        by (simp add: dict_update_prefix[OF ks conjunct1[OF rl1]])
      have b: "song_playlist_mapping (files w2) = song_playlist_mapping (files w1)"
        unfolding f2 m2 mapping_after_save_eq
        by (simp add: sd1 mp1 table_def same rebuild_mapping_again[OF conjunct1[OF rl1]])
      from a b sd1 show ?thesis by simp
    qed
  qed
qed

text \<open>
  Claim C1. Run the single playlist mode on any files whose song table has distinct keys,
  and run it again, with the same URL and playlist name typed and the same raw event
  stream, on the files the first run left (whatever the downloads and the clock do in each
  run). The second run leaves the persisted song table as the first run left it, entry
  for entry: the same identifiers in the same number, each song with the same membership
  list and the same other fields; the song to playlists mapping is unchanged as well.
\<close>

theorem rerun_leaves_catalog:
  assumes "distinct (map fst (table (songs_database d)))"
    and "events env2 = events env1"
    and "run_single_playlist_mode env1 url_input name_input d = Some (jr1, w1)"
    and "run_single_playlist_mode env2 url_input name_input (files w1) = Some (jr2, w2)"
  shows "songs_database (files w2) = songs_database (files w1) \<and>
         song_playlist_mapping (files w2) = song_playlist_mapping (files w1)"
proof -
  let ?pn = "if strip name_input \<noteq> [] then sanitize_filename (strip name_input)
             else ''playlist_'' @ hd (split_on CHR ''?'' (last (split_on CHR ''/'' (strip url_input))))"
  from assms(3) have p1: "process_single_playlist env1 None True ?pn (strip url_input)
               \<lparr>song_mgr = load_existing_database d, files = d, reads = 0,
                skipped_tracks_log = [], download_results = []\<rparr> = (jr1, w1)"
    by (simp add: run_single_playlist_mode_def Let_def split: if_splits)
  from assms(4) have p2: "process_single_playlist env2 None True ?pn (strip url_input)
               \<lparr>song_mgr = load_existing_database (files w1), files = files w1, reads = 0,
                skipped_tracks_log = [], download_results = []\<rparr> = (jr2, w2)"
    by (simp add: run_single_playlist_mode_def Let_def split: if_splits)
  have ev: "snd (capture_requests (events env2) ([], [])) = snd (capture_requests (events env1) ([], []))"
    by (simp add: assms(2))
  show ?thesis by (rule job_twice[OF assms(1) ev p1 p2])
qed

lemma strip_url: "strip ''url'' = ''url''"
  by code_simp

theorem rerun_leaves_catalog_witness:
  "songs_database (files (snd (the (run_single_playlist_mode (example_env [item_a, item_b]) ''url'' ''P1''
      (files (snd (the (run_single_playlist_mode (example_env [item_a, item_b]) ''url'' ''P1''
         empty_disk)))))))) =
   songs_database (files (snd (the (run_single_playlist_mode (example_env [item_a, item_b]) ''url'' ''P1''
         empty_disk))))"
proof -
  let ?e = "example_env [item_a, item_b]"
  let ?x1 = "the (run_single_playlist_mode ?e ''url'' ''P1'' empty_disk)"
  let ?x2 = "the (run_single_playlist_mode ?e ''url'' ''P1'' (files (snd ?x1)))"
  have h1: "distinct (map fst (table (songs_database empty_disk)))"
    by (simp add: empty_disk_def table_def)
  have h3: "run_single_playlist_mode ?e ''url'' ''P1'' empty_disk = Some (fst ?x1, snd ?x1)"
    by (simp add: run_single_playlist_mode_def Let_def strip_url)
  have h4: "run_single_playlist_mode ?e ''url'' ''P1'' (files (snd ?x1)) = Some (fst ?x2, snd ?x2)"
    by (simp add: run_single_playlist_mode_def Let_def strip_url)
  from rerun_leaves_catalog[OF h1 refl h3 h4] show ?thesis by simp
qed

end
